theory Spec2Isabelle
  imports Main "HOL-Library.AList" "HOL-Library.Multiset" "HOL-Library.Sublist"
begin

section \<open>Strings\<close>

text \<open>
  A JavaScript string is modelled as a \<^typ>\<open>string\<close> of ASCII characters. The white space
  that \<^verbatim>\<open>trim()\<close> strips and that the regular expression \<^verbatim>\<open>\s\<close> matches is, in ASCII,
  tab, line feed, vertical tab, form feed, carriage return and space.
\<close>

definition is_ws :: "char \<Rightarrow> bool" where
  "is_ws c = (c \<in> set [CHR 0x09, CHR 0x0A, CHR 0x0B, CHR 0x0C, CHR 0x0D, CHR 0x20])"

definition trim :: "string \<Rightarrow> string" where
  "trim s = rev (dropWhile is_ws (rev (dropWhile is_ws s)))"

definition lower_char :: "char \<Rightarrow> char" where
  "lower_char c =
     (let n = (of_char c :: nat) in if 65 \<le> n \<and> n \<le> 90 then char_of (n + 32) else c)"

definition upper_char :: "char \<Rightarrow> char" where
  "upper_char c =
     (let n = (of_char c :: nat) in if 97 \<le> n \<and> n \<le> 122 then char_of (n - 32) else c)"

definition toLowerCase :: "string \<Rightarrow> string" where
  "toLowerCase s = map lower_char s"

text \<open>\<^verbatim>\<open>s.replace(/\s+/g, '_')\<close>: every maximal run of white space becomes one underscore.\<close>

function replace_ws :: "string \<Rightarrow> string" where
  "replace_ws [] = []"
| "replace_ws (c # cs) =
     (if is_ws c then CHR ''_'' # replace_ws (dropWhile is_ws cs) else c # replace_ws cs)"
  by pat_completeness auto
termination
  by (relation "measure length") (auto simp: le_imp_less_Suc length_dropWhile_le)

definition startsWith :: "string \<Rightarrow> string \<Rightarrow> bool" where
  "startsWith s p = (take (length p) s = p)"

text \<open>\<^verbatim>\<open>key.charAt(0).toUpperCase() + key.slice(1)\<close>\<close>

definition capitalize :: "string \<Rightarrow> string" where
  "capitalize s = (case s of [] \<Rightarrow> [] | c # cs \<Rightarrow> upper_char c # cs)"

text \<open>The key that the add-column dialog and the import derive from a name.\<close>

definition normalize :: "string \<Rightarrow> string" where
  "normalize s = replace_ws (toLowerCase (trim s))"

text \<open>Decimal text of a number, as \<^verbatim>\<open>String(n)\<close> prints an integer.\<close>

definition digit_char :: "nat \<Rightarrow> char" where
  "digit_char d = char_of (48 + d)"

function show_nat :: "nat \<Rightarrow> string" where
  "show_nat n = (if n < 10 then [digit_char n] else show_nat (n div 10) @ [digit_char (n mod 10)])"
  by pat_completeness auto
termination
  by (relation "measure id") auto

declare show_nat.simps [simp del]

definition show_int :: "int \<Rightarrow> string" where
  "show_int i = (if i < 0 then CHR ''-'' # show_nat (nat (- i)) else show_nat (nat i))"

section \<open>Values\<close>

text \<open>
  Primitive values: what a spreadsheet cell read by \<^verbatim>\<open>sheet_to_json\<close> holds (a string, a
  number, a boolean), what an out-of-range read gives (\<^verbatim>\<open>undefined\<close>), and \<^verbatim>\<open>null\<close>.
  A number is one of the integers that a double holds: \<^verbatim>\<open>NaN\<close>, the infinities and
  fractions are outside the model.
\<close>

datatype prim = Undefined | Null | Bool bool | Num int | Str string

text \<open>
  Arithmetic is that of doubles. For a power of two u, the doubles of a magnitude from
  u times the 52nd power of two up to u times the 53rd are the multiples of u; an
  integer is rounded to the nearest of them, a tie going to the even multiple. Up to the
  53rd power of two in magnitude every integer is a double. (The largest double is never
  exceeded by the one addition made below, of 1 to a double.)
\<close>

function spacing :: "nat \<Rightarrow> nat" where
  "spacing m = (if m < 2 ^ 53 then 1 else 2 * spacing (m div 2))"
  by pat_completeness auto
termination
  by (relation "measure id") auto

declare spacing.simps [simp del]

definition to_double :: "int \<Rightarrow> int" where
  "to_double x =
     (let u = int (spacing (nat \<bar>x\<bar>)); q = x div u; r = x mod u in
      if 2 * r < u then q * u
      else if u < 2 * r then (q + 1) * u
      else if even q then q * u else (q + 1) * u)"

text \<open>\<^verbatim>\<open>a + b\<close> on two numbers.\<close>

definition js_plus :: "int \<Rightarrow> int \<Rightarrow> int" where
  "js_plus a b = to_double (a + b)"

text \<open>
  Values of type \<^verbatim>\<open>any\<close>. A \<^verbatim>\<open>Date\<close> object is named by the text its
  \<^verbatim>\<open>toISOString()\<close> returns, a function by a label. An object is the list of its own
  properties in insertion order.
\<close>

datatype jsval =
    Prim prim
  | Date string
  | Func string
  | Arr "jsval list"
  | Obj "(string \<times> jsval) list"

fun truthy :: "prim \<Rightarrow> bool" where
  "truthy Undefined = False"
| "truthy Null = False"
| "truthy (Bool b) = b"
| "truthy (Num n) = (n \<noteq> 0)"
| "truthy (Str s) = (s \<noteq> [])"

fun js_truthy :: "jsval \<Rightarrow> bool" where
  "js_truthy (Prim p) = truthy p"
| "js_truthy _ = True"

fun js_String :: "prim \<Rightarrow> string" where
  "js_String Undefined = ''undefined''"
| "js_String Null = ''null''"
| "js_String (Bool b) = (if b then ''true'' else ''false'')"
| "js_String (Num n) = show_int n"
| "js_String (Str s) = s"

text \<open>\<^verbatim>\<open>v == null\<close>\<close>

fun is_nullish :: "jsval \<Rightarrow> bool" where
  "is_nullish (Prim Undefined) = True"
| "is_nullish (Prim Null) = True"
| "is_nullish _ = False"

text \<open>\<^verbatim>\<open>v ?? ''\<close> on a cell\<close>

fun or_empty :: "prim \<Rightarrow> prim" where
  "or_empty Undefined = Str []"
| "or_empty Null = Str []"
| "or_empty p = p"

datatype error = TypeError

section \<open>Objects\<close>

text \<open>
  The names every plain object inherits from \<^verbatim>\<open>Object.prototype\<close>. The operator
  \<^verbatim>\<open>in\<close> and a property read see them; \<^verbatim>\<open>Object.values\<close>, the spread
  \<^verbatim>\<open>{...o}\<close> and \<^verbatim>\<open>delete\<close> see own properties only.
\<close>

definition object_prototype_keys :: "string list" where
  "object_prototype_keys =
     [''constructor'', ''__proto__'', ''hasOwnProperty'', ''isPrototypeOf'',
      ''propertyIsEnumerable'', ''toLocaleString'', ''toString'', ''valueOf'',
      ''__defineGetter__'', ''__defineSetter__'', ''__lookupGetter__'', ''__lookupSetter__'']"

type_synonym row = "(string \<times> jsval) list"

text \<open>\<^verbatim>\<open>k in o\<close>\<close>

definition obj_in :: "string \<Rightarrow> (string \<times> 'a) list \<Rightarrow> bool" where
  "obj_in k ob = (k \<in> fst ` set ob \<or> k \<in> set object_prototype_keys)"

text \<open>\<^verbatim>\<open>o[k]\<close>: an own property, else an inherited one, else \<^verbatim>\<open>undefined\<close>.\<close>

definition obj_get :: "row \<Rightarrow> string \<Rightarrow> jsval" where
  "obj_get ob k =
     (case map_of ob k of
        Some v \<Rightarrow> v
      | None \<Rightarrow> if k = ''__proto__'' then Obj []
                else if k \<in> set object_prototype_keys then Func k
                else Prim Undefined)"

text \<open>
  \<^verbatim>\<open>o[k] = v\<close> for a primitive \<^verbatim>\<open>v\<close>: the inherited setter of \<^verbatim>\<open>__proto__\<close>
  ignores a primitive, every other name becomes (or stays) an own property.
\<close>

definition obj_assign :: "row \<Rightarrow> string \<Rightarrow> prim \<Rightarrow> row" where
  "obj_assign ob k v = (if k = ''__proto__'' then ob else AList.update k (Prim v) ob)"

section \<open>Columns, ScoreCards and the component state\<close>

record column =
  col_key :: string
  col_name :: string
  editable :: "bool option"
  sortable :: "bool option"
  isDefault :: "bool option"
  renderEditCell :: "string option"
  renderCell :: "string option"
  renderHeaderCell :: "string option"

record scorecard =
  sc_id :: string
  sc_name :: string
  sc_columns :: "column list"
  sc_rows :: "row list"
  createdAt :: jsval

text \<open>What \<^verbatim>\<open>updateScoreCard\<close> and \<^verbatim>\<open>updateCurrentData\<close> receive: the fields to replace.\<close>

record updates =
  u_name :: "string option"
  u_columns :: "column list option"
  u_rows :: "row list option"

record category_entry =
  ce_columns :: "column list option"
  ce_rows :: "row list option"

record sortColumn =
  columnKey :: string
  ascending :: bool

record comment =
  c_text :: string
  c_timestamp :: string
  c_username :: string

record user_info =
  user_name :: "string option"
  user_username :: "string option"

text \<open>
  A sub-grid. \<^verbatim>\<open>handleSubGridRowsChange\<close> can create one that has rows only, so the
  other two fields are optional.
\<close>

record subgrid =
  sg_columns :: "column list option"
  sg_rows :: "row list"
  sg_expanded :: "bool option"

section \<open>JSON and local storage\<close>

text \<open>
  A stored string is modelled by what \<^verbatim>\<open>JSON.parse\<close> makes of it: a JSON document, given
  by its abstract syntax, or text that does not parse (the empty string included).
\<close>

datatype json =
    JNull
  | JBool bool
  | JNum int
  | JStr string
  | JArr "json list"
  | JObj "(string \<times> json) list"

datatype stored = Doc json | Malformed

text \<open>
  \<^verbatim>\<open>JSON.stringify\<close>: \<^verbatim>\<open>undefined\<close> and functions have no JSON text (the result is
  \<^verbatim>\<open>undefined\<close>); inside an array they become \<^verbatim>\<open>null\<close>, inside an object the
  property is left out. A \<^verbatim>\<open>Date\<close> is written as the string its \<^verbatim>\<open>toJSON()\<close> returns.
\<close>

fun JSON_stringify :: "jsval \<Rightarrow> json option"
  and stringify_elems :: "jsval list \<Rightarrow> json list"
  and stringify_props :: "(string \<times> jsval) list \<Rightarrow> (string \<times> json) list" where
  "JSON_stringify (Prim Undefined) = None"
| "JSON_stringify (Prim Null) = Some JNull"
| "JSON_stringify (Prim (Bool b)) = Some (JBool b)"
| "JSON_stringify (Prim (Num n)) = Some (JNum n)"
| "JSON_stringify (Prim (Str s)) = Some (JStr s)"
| "JSON_stringify (Date d) = Some (JStr d)"
| "JSON_stringify (Func f) = None"
| "JSON_stringify (Arr xs) = Some (JArr (stringify_elems xs))"
| "JSON_stringify (Obj kvs) = Some (JObj (stringify_props kvs))"
| "stringify_elems [] = []"
| "stringify_elems (x # xs) =
     (case JSON_stringify x of None \<Rightarrow> JNull | Some j \<Rightarrow> j) # stringify_elems xs"
| "stringify_props [] = []"
| "stringify_props ((k, v) # kvs) =
     (case JSON_stringify v of None \<Rightarrow> stringify_props kvs
      | Some j \<Rightarrow> (k, j) # stringify_props kvs)"

fun JSON_parse :: "json \<Rightarrow> jsval"
  and parse_elems :: "json list \<Rightarrow> jsval list"
  and parse_props :: "(string \<times> json) list \<Rightarrow> (string \<times> jsval) list" where
  "JSON_parse JNull = Prim Null"
| "JSON_parse (JBool b) = Prim (Bool b)"
| "JSON_parse (JNum n) = Prim (Num n)"
| "JSON_parse (JStr s) = Prim (Str s)"
| "JSON_parse (JArr js) = Arr (parse_elems js)"
| "JSON_parse (JObj kjs) = Obj (parse_props kjs)"
| "parse_elems [] = []"
| "parse_elems (j # js) = JSON_parse j # parse_elems js"
| "parse_props [] = []"
| "parse_props ((k, j) # kjs) = (k, JSON_parse j) # parse_props kjs"

text \<open>\<^verbatim>\<open>localStorage.setItem(k, JSON.stringify(v))\<close>; the text of \<^verbatim>\<open>undefined\<close> does not parse.\<close>

definition stored_of :: "jsval \<Rightarrow> stored" where
  "stored_of v = (case JSON_stringify v of None \<Rightarrow> Malformed | Some j \<Rightarrow> Doc j)"

text \<open>The JavaScript objects that the typed records stand for.\<close>

definition opt_prop :: "string \<Rightarrow> ('a \<Rightarrow> jsval) \<Rightarrow> 'a option \<Rightarrow> (string \<times> jsval) list" where
  "opt_prop k f v = (case v of None \<Rightarrow> [] | Some x \<Rightarrow> [(k, f x)])"

definition js_of_column :: "column \<Rightarrow> jsval" where
  "js_of_column c =
     Obj ([(''key'', Prim (Str (col_key c))), (''name'', Prim (Str (col_name c)))]
          @ opt_prop ''editable'' (\<lambda>b. Prim (Bool b)) (editable c)
          @ opt_prop ''sortable'' (\<lambda>b. Prim (Bool b)) (sortable c)
          @ opt_prop ''isDefault'' (\<lambda>b. Prim (Bool b)) (isDefault c)
          @ opt_prop ''renderEditCell'' Func (renderEditCell c)
          @ opt_prop ''renderCell'' Func (renderCell c)
          @ opt_prop ''renderHeaderCell'' Func (renderHeaderCell c))"

definition js_of_scorecard :: "scorecard \<Rightarrow> jsval" where
  "js_of_scorecard sc =
     Obj [(''id'', Prim (Str (sc_id sc))),
          (''name'', Prim (Str (sc_name sc))),
          (''columns'', Arr (map js_of_column (sc_columns sc))),
          (''rows'', Arr (map Obj (sc_rows sc))),
          (''createdAt'', createdAt sc)]"

definition js_of_comment :: "comment \<Rightarrow> jsval" where
  "js_of_comment c =
     Obj [(''text'', Prim (Str (c_text c))),
          (''timestamp'', Prim (Str (c_timestamp c))),
          (''username'', Prim (Str (c_username c)))]"

definition js_of_comments :: "(string \<times> (int \<times> comment list) list) list \<Rightarrow> jsval" where
  "js_of_comments cs =
     Obj (map (\<lambda>(cat, byRow).
            (cat, Obj (map (\<lambda>(rid, l). (show_int rid, Arr (map js_of_comment l))) byRow))) cs)"

record state =
  scorecards :: "scorecard list"
  selectedCategory :: "string option"
  categoryData :: "(string \<times> category_entry) list"
  userRole :: string
  sortColumns :: "sortColumn list"
  showAddColModal :: bool
  newColName :: string
  colError :: string
  openCommentRowId :: "int option"
  commentInput :: string
  user :: "user_info option"
  comments :: "(string \<times> (int \<times> comment list) list) list"
  subGrids :: "(string \<times> subgrid) list"
  localStorage :: "string \<Rightarrow> stored option"

definition saveScoreCardsToStorage :: "scorecard list \<Rightarrow> state \<Rightarrow> state" where
  "saveScoreCardsToStorage scs s =
     s\<lparr>localStorage := (localStorage s)(''scorecards'' \<mapsto> stored_of (Arr (map js_of_scorecard scs)))\<rparr>"

text \<open>
  \<^verbatim>\<open>stored ? JSON.parse(stored) : []\<close> inside \<^verbatim>\<open>try\<close>: an absent item, the empty string
  and text that does not parse all give the empty list.
\<close>

definition loadScoreCardsFromStorage :: "state \<Rightarrow> jsval" where
  "loadScoreCardsFromStorage s =
     (case localStorage s ''scorecards'' of
        None \<Rightarrow> Arr []
      | Some Malformed \<Rightarrow> Arr []
      | Some (Doc j) \<Rightarrow> JSON_parse j)"

definition saveRetailersToStorage :: "row list \<Rightarrow> state \<Rightarrow> state" where
  "saveRetailersToStorage rs s =
     s\<lparr>localStorage := (localStorage s)(''retailers'' \<mapsto> stored_of (Arr (map Obj rs)))\<rparr>"

definition saveScorecardComments ::
  "(string \<times> (int \<times> comment list) list) list \<Rightarrow> state \<Rightarrow> state" where
  "saveScorecardComments cs s =
     s\<lparr>localStorage := (localStorage s)(''scorecardComments'' \<mapsto> stored_of (js_of_comments cs))\<rparr>"

text \<open>
  \<^verbatim>\<open>setScorecards(f)\<close> together with the effect that depends on \<^verbatim>\<open>scorecards\<close>: the new
  list is written to local storage after every change.
\<close>

definition setScorecards :: "(scorecard list \<Rightarrow> scorecard list) \<Rightarrow> state \<Rightarrow> state" where
  "setScorecards f s =
     saveScoreCardsToStorage (f (scorecards s)) (s\<lparr>scorecards := f (scorecards s)\<rparr>)"

section \<open>The current grid\<close>

definition apply_updates :: "updates \<Rightarrow> scorecard \<Rightarrow> scorecard" where
  "apply_updates u sc =
     sc\<lparr>sc_name := (case u_name u of None \<Rightarrow> sc_name sc | Some n \<Rightarrow> n),
        sc_columns := (case u_columns u of None \<Rightarrow> sc_columns sc | Some cs \<Rightarrow> cs),
        sc_rows := (case u_rows u of None \<Rightarrow> sc_rows sc | Some rs \<Rightarrow> rs)\<rparr>"

definition updateScoreCard :: "string \<Rightarrow> updates \<Rightarrow> state \<Rightarrow> state" where
  "updateScoreCard scorecardId u =
     setScorecards (map (\<lambda>sc. if sc_id sc = scorecardId then apply_updates u sc else sc))"

definition getCurrentData :: "state \<Rightarrow> (column list \<times> row list) option" where
  "getCurrentData s =
     (case selectedCategory s of
        None \<Rightarrow> None
      | Some c \<Rightarrow>
          if c = [] then None
          else if startsWith c ''scorecard_'' then
            (case find (\<lambda>sc. sc_id sc = c) (scorecards s) of
               None \<Rightarrow> None
             | Some sc \<Rightarrow> Some (sc_columns sc, sc_rows sc))
          else None)"

text \<open>The column keyed \<^verbatim>\<open>comments\<close> always gets a blank name and a header that renders nothing.\<close>

definition blank_comments :: "column \<Rightarrow> column" where
  "blank_comments col =
     (if col_key col = ''comments''
      then col\<lparr>col_name := [], renderHeaderCell := Some ''() => null''\<rparr> else col)"

text \<open>
  \<^verbatim>\<open>selectedCategory\<close> starts as \<^verbatim>\<open>dataCategories[0]\<close>, which is \<^verbatim>\<open>undefined\<close>:
  calling \<^verbatim>\<open>startsWith\<close> on it throws.
\<close>

definition updateCurrentData :: "updates \<Rightarrow> state \<Rightarrow> error + state" where
  "updateCurrentData u s =
     (let u' = u\<lparr>u_columns := map_option (map blank_comments) (u_columns u)\<rparr> in
      case selectedCategory s of
        None \<Rightarrow> Inl TypeError
      | Some c \<Rightarrow>
          if startsWith c ''scorecard_'' then Inr (updateScoreCard c u' s)
          else
            let old = (case map_of (categoryData s) c of
                         None \<Rightarrow> \<lparr>ce_columns = None, ce_rows = None\<rparr> | Some e \<Rightarrow> e);
                new = \<lparr>ce_columns = (case u_columns u' of None \<Rightarrow> ce_columns old | Some cs \<Rightarrow> Some cs),
                       ce_rows = (case u_rows u' of None \<Rightarrow> ce_rows old | Some rs \<Rightarrow> Some rs)\<rparr>
            in Inr (s\<lparr>categoryData := AList.update c new (categoryData s)\<rparr>))"

section \<open>Rows and columns of the main grid\<close>

text \<open>\<^verbatim>\<open>typeof r.id === 'number' ? r.id : 0\<close>\<close>

definition numeric_id_or_0 :: "row \<Rightarrow> int" where
  "numeric_id_or_0 r = (case obj_get r ''id'' of Prim (Num n) \<Rightarrow> n | _ \<Rightarrow> 0)"

text \<open>\<^verbatim>\<open>rows.length > 0 ? Math.max(...rows.map(...)) + 1 : 1\<close>\<close>

definition next_id :: "row list \<Rightarrow> int" where
  "next_id rs = (case map numeric_id_or_0 rs of [] \<Rightarrow> 1 | x # xs \<Rightarrow> js_plus (fold max xs x) 1)"

definition fill_new_row :: "column list \<Rightarrow> row \<Rightarrow> row" where
  "fill_new_row cols newRow =
     foldl (\<lambda>r col.
        if col_key col \<noteq> ''id'' \<and> col_key col \<noteq> ''delete'' \<and> \<not> obj_in (col_key col) r
        then obj_assign r (col_key col) (Str []) else r) newRow cols"

definition handleAddRow :: "state \<Rightarrow> error + state" where
  "handleAddRow s =
     (case getCurrentData s of
        None \<Rightarrow> Inr s
      | Some (cols, rs) \<Rightarrow>
          let newId = next_id rs;
              newRow = fill_new_row cols [(''id'', Prim (Num newId)), (''name'', Prim (Str []))];
              updatedRows = rs @ [newRow]
          in case updateCurrentData \<lparr>u_name = None, u_columns = None, u_rows = Some updatedRows\<rparr> s of
               Inl e \<Rightarrow> Inl e
             | Inr s' \<Rightarrow>
                 Inr (if selectedCategory s = Some ''Retailers''
                      then saveRetailersToStorage updatedRows s' else s'))"

text \<open>\<^verbatim>\<open>findIndex\<close>: the position of the first match, or the length where JavaScript gives -1
  and the caller then takes the length.\<close>

definition insert_index :: "column list \<Rightarrow> nat" where
  "insert_index cols = length (takeWhile (\<lambda>col. col_key col \<noteq> ''retail_price'') cols)"

definition handleAddColumnConfirm :: "state \<Rightarrow> error + state" where
  "handleAddColumnConfirm s =
     (if trim (newColName s) = [] then Inr (s\<lparr>colError := ''Column name is required.''\<rparr>)
      else
        let k = normalize (newColName s) in
        case getCurrentData s of
          None \<Rightarrow> Inr s
        | Some (cols, rs) \<Rightarrow>
            if list_ex (\<lambda>col. col_key col = k) cols
            then Inr (s\<lparr>colError := ''Column name must be unique.''\<rparr>)
            else
              let newColumn = \<lparr>col_key = k, col_name = newColName s,
                               editable = Some (userRole s = ''ADMIN''), sortable = Some True,
                               isDefault = None, renderEditCell = None, renderCell = None,
                               renderHeaderCell = None\<rparr>;
                  insertIndex = insert_index cols;
                  updatedColumns =
                    map blank_comments (take insertIndex cols @ [newColumn] @ drop insertIndex cols);
                  updatedRows = map (AList.update k (Prim (Str []))) rs
              in case updateCurrentData
                        \<lparr>u_name = None, u_columns = Some updatedColumns, u_rows = Some updatedRows\<rparr> s of
                   Inl e \<Rightarrow> Inl e
                 | Inr s' \<Rightarrow> Inr (s'\<lparr>showAddColModal := False, newColName := [], colError := []\<rparr>))"

definition handleDeleteColumn :: "string \<Rightarrow> state \<Rightarrow> error + state" where
  "handleDeleteColumn colKey s =
     (case getCurrentData s of
        None \<Rightarrow> Inr s
      | Some (cols, rs) \<Rightarrow>
          updateCurrentData
            \<lparr>u_name = None,
             u_columns = Some (filter (\<lambda>col. col_key col \<noteq> colKey) cols),
             u_rows = Some (map (AList.delete colKey) rs)\<rparr> s)"

definition deleteScoreCard :: "string \<Rightarrow> state \<Rightarrow> state" where
  "deleteScoreCard scorecardId s =
     (let s' = setScorecards (filter (\<lambda>sc. sc_id sc \<noteq> scorecardId)) s in
      if selectedCategory s = Some scorecardId then s'\<lparr>selectedCategory := None\<rparr> else s')"

text \<open>The state a handler leaves behind: an exception leaves the state as it was.\<close>

definition state_after :: "error + state \<Rightarrow> state \<Rightarrow> state" where
  "state_after r s = (case r of Inl e \<Rightarrow> s | Inr s' \<Rightarrow> s')"

definition current_rows :: "state \<Rightarrow> row list" where
  "current_rows s = (case getCurrentData s of None \<Rightarrow> [] | Some (cols, rs) \<Rightarrow> rs)"

definition current_columns :: "state \<Rightarrow> column list" where
  "current_columns s = (case getCurrentData s of None \<Rightarrow> [] | Some (cols, rs) \<Rightarrow> cols)"


definition editable_effect :: "state \<Rightarrow> error + state" where
  "editable_effect s =
     (case getCurrentData s of
        None \<Rightarrow> Inr s
      | Some (cols, rs) \<Rightarrow>
          updateCurrentData
            \<lparr>u_name = None,
             u_columns = Some (map (\<lambda>col.
                let is_editable = (userRole s = ''ADMIN'' \<and> col_key col \<noteq> ''id''
                                   \<and> col_key col \<noteq> ''delete'')
                in col\<lparr>editable := Some is_editable,
                       renderEditCell := (case renderEditCell col of
                                            Some f \<Rightarrow> Some f
                                          | None \<Rightarrow> if is_editable then Some ''input'' else None)\<rparr>)
                cols),
             u_rows = None\<rparr> s)"

section \<open>Comments\<close>

text \<open>The name put on a new comment: the user's name, else the username, else Anonymous.\<close>

definition current_username :: "state \<Rightarrow> string" where
  "current_username s =
     (case user s of
        None \<Rightarrow> ''Anonymous''
      | Some u \<Rightarrow>
          (case user_name u of
             Some n \<Rightarrow> if n \<noteq> [] then n
                       else (case user_username u of
                               Some m \<Rightarrow> if m \<noteq> [] then m else ''Anonymous''
                             | None \<Rightarrow> ''Anonymous'')
           | None \<Rightarrow> (case user_username u of
                        Some m \<Rightarrow> if m \<noteq> [] then m else ''Anonymous''
                      | None \<Rightarrow> ''Anonymous'')))"

text \<open>The comment list of a (scorecard, row) pair; a missing entry reads as the empty list.\<close>

definition comments_of ::
  "(string \<times> (int \<times> comment list) list) list \<Rightarrow> string \<Rightarrow> int \<Rightarrow> comment list" where
  "comments_of cs cat rid =
     (case map_of cs cat of
        None \<Rightarrow> []
      | Some byRow \<Rightarrow> (case map_of byRow rid of None \<Rightarrow> [] | Some l \<Rightarrow> l))"

text \<open>
  The first argument is the text of the current date and time. The guard tests the
  selected category last, by a method call that throws when the category is undefined.
\<close>

definition handleAddComment :: "string \<Rightarrow> state \<Rightarrow> error + state" where
  "handleAddComment now s =
     (if trim (commentInput s) = [] then Inr s
      else case openCommentRowId s of
        None \<Rightarrow> Inr s
      | Some rid \<Rightarrow>
          (case selectedCategory s of
             None \<Rightarrow> Inl TypeError
           | Some cat \<Rightarrow>
               if \<not> startsWith cat ''scorecard_'' then Inr s
               else
                 let newComment = \<lparr>c_text = trim (commentInput s), c_timestamp = now,
                                    c_username = current_username s\<rparr>;
                     byRow = (case map_of (comments s) cat of None \<Rightarrow> [] | Some m \<Rightarrow> m);
                     updated = AList.update cat
                                 (AList.update rid (comments_of (comments s) cat rid @ [newComment]) byRow)
                                 (comments s)
                 in Inr ((saveScorecardComments updated (s\<lparr>comments := updated\<rparr>))\<lparr>commentInput := []\<rparr>)))"

section \<open>Sub-grids\<close>

text \<open>
  Reading the sub-grid table at a parent id gives an own entry, a name inherited from the
  object prototype (a truthy value that is no sub-grid), or nothing.
\<close>

datatype 'a looked = Own 'a | Inherited | Missing

definition js_lookup :: "(string \<times> 'a) list \<Rightarrow> string \<Rightarrow> 'a looked" where
  "js_lookup ob k =
     (case map_of ob k of
        Some v \<Rightarrow> Own v
      | None \<Rightarrow> if k \<in> set object_prototype_keys then Inherited else Missing)"

definition plain_column :: "string \<Rightarrow> string \<Rightarrow> column" where
  "plain_column k n =
     \<lparr>col_key = k, col_name = n, editable = Some True, sortable = Some True, isDefault = None,
      renderEditCell = None, renderCell = None, renderHeaderCell = None\<rparr>"

definition handleAddSubGrid :: "prim \<Rightarrow> state \<Rightarrow> state" where
  "handleAddSubGrid parentId s =
     s\<lparr>subGrids := AList.update (js_String parentId)
          \<lparr>sg_columns = Some [plain_column ''note'' ''Note''], sg_rows = [], sg_expanded = Some True\<rparr>
          (subGrids s)\<rparr>"

definition default_grid :: subgrid where
  "default_grid = \<lparr>sg_columns = Some [], sg_rows = [], sg_expanded = Some True\<rparr>"

text \<open>The second argument is the current time in milliseconds, which names the column.\<close>

definition handleSubGridAddColumn :: "prim \<Rightarrow> int \<Rightarrow> state \<Rightarrow> error + state" where
  "handleSubGridAddColumn parentId now s =
     (if parentId = Undefined then Inr s
      else
        let colKey = ''col_'' @ show_int now in
        case js_lookup (subGrids s) (js_String parentId) of
          Inherited \<Rightarrow> Inl TypeError
        | looked \<Rightarrow>
            let grid = (case looked of Own g \<Rightarrow> g | _ \<Rightarrow> default_grid) in
            (case sg_columns grid of
               None \<Rightarrow> Inl TypeError
             | Some cols \<Rightarrow>
                 Inr (s\<lparr>subGrids := AList.update (js_String parentId)
                        (grid\<lparr>sg_columns := Some (cols @ [plain_column colKey ''New Column'']),
                              sg_rows := map (AList.update colKey (Prim (Str []))) (sg_rows grid)\<rparr>)
                        (subGrids s)\<rparr>)))"

definition handleSubGridAddRow :: "prim \<Rightarrow> state \<Rightarrow> error + state" where
  "handleSubGridAddRow parentId s =
     (if parentId = Undefined then Inr s
      else
        case js_lookup (subGrids s) (js_String parentId) of
          Inherited \<Rightarrow> Inl TypeError
        | looked \<Rightarrow>
            let grid = (case looked of Own g \<Rightarrow> g | _ \<Rightarrow> default_grid);
                newId = next_id (sg_rows grid)
            in (case sg_columns grid of
                  None \<Rightarrow> Inl TypeError
                | Some cols \<Rightarrow>
                    let newRow = foldl (\<lambda>r col. obj_assign r (col_key col) (Str []))
                                   [(''id'', Prim (Num newId))] cols
                    in Inr (s\<lparr>subGrids := AList.update (js_String parentId)
                              (grid\<lparr>sg_rows := sg_rows grid @ [newRow]\<rparr>) (subGrids s)\<rparr>)))"

definition handleSubGridRowsChange :: "prim \<Rightarrow> row list \<Rightarrow> state \<Rightarrow> state" where
  "handleSubGridRowsChange parentId newRows s =
     (if parentId = Undefined then s
      else
        let kept = filter (\<lambda>r. \<not> js_truthy (obj_get r ''isAddRow'')) newRows;
            grid = (case js_lookup (subGrids s) (js_String parentId) of
                      Own g \<Rightarrow> g\<lparr>sg_rows := kept\<rparr>
                    | _ \<Rightarrow> \<lparr>sg_columns = None, sg_rows = kept, sg_expanded = None\<rparr>)
        in s\<lparr>subGrids := AList.update (js_String parentId) grid (subGrids s)\<rparr>)"

definition handleSubGridDeleteRow :: "prim \<Rightarrow> prim \<Rightarrow> state \<Rightarrow> error + state" where
  "handleSubGridDeleteRow parentId rowId s =
     (if parentId = Undefined \<or> rowId = Undefined then Inr s
      else
        case js_lookup (subGrids s) (js_String parentId) of
          Missing \<Rightarrow> Inr s
        | Inherited \<Rightarrow> Inl TypeError
        | Own grid \<Rightarrow>
            Inr (s\<lparr>subGrids := AList.update (js_String parentId)
                   (grid\<lparr>sg_rows := filter (\<lambda>r. obj_get r ''id'' \<noteq> Prim rowId) (sg_rows grid)\<rparr>)
                   (subGrids s)\<rparr>))"

definition handleSubGridDeleteColumn :: "prim \<Rightarrow> string \<Rightarrow> state \<Rightarrow> error + state" where
  "handleSubGridDeleteColumn parentId colKey s =
     (if parentId = Undefined then Inr s
      else
        case js_lookup (subGrids s) (js_String parentId) of
          Missing \<Rightarrow> Inr s
        | Inherited \<Rightarrow> Inl TypeError
        | Own grid \<Rightarrow>
            (case sg_columns grid of
               None \<Rightarrow> Inl TypeError
             | Some cols \<Rightarrow>
                 Inr (s\<lparr>subGrids := AList.update (js_String parentId)
                        (grid\<lparr>sg_columns := Some (filter (\<lambda>col. col_key col \<noteq> colKey) cols),
                              sg_rows := map (AList.delete colKey) (sg_rows grid)\<rparr>)
                        (subGrids s)\<rparr>)))"

section \<open>Sorting\<close>

text \<open>
  The comparator of the sort. The strict-equality and greater-than tests on two values
  that are neither null nor undefined are parameters: every result below holds whatever
  they answer.
\<close>

definition compare_rows ::
  "(jsval \<Rightarrow> jsval \<Rightarrow> bool) \<Rightarrow> (jsval \<Rightarrow> jsval \<Rightarrow> bool) \<Rightarrow> sortColumn \<Rightarrow> row \<Rightarrow> row \<Rightarrow> int" where
  "compare_rows strict_eq gt sc a b =
     (let aValue = obj_get a (columnKey sc); bValue = obj_get b (columnKey sc) in
      if is_nullish aValue then 1
      else if is_nullish bValue then - 1
      else if strict_eq aValue bValue then 0
      else (if gt aValue bValue then 1 else - 1) * (if ascending sc then 1 else - 1))"

text \<open>
  The array sort is the engine's, not this program's, and the comparator above is not a
  consistent one (on two rows with null values it answers 1 both ways), so the language
  leaves the order to the engine. The sort is therefore a parameter of the sorting
  function. What is required of it is this: the result holds the elements of the array,
  each as often as the array does; and no two neighbours of the result stand against both
  answers of the comparator, that is, \<^verbatim>\<open>b\<close> never directly follows \<^verbatim>\<open>a\<close> when the
  comparator says both that \<^verbatim>\<open>a\<close> comes after \<^verbatim>\<open>b\<close> and that \<^verbatim>\<open>b\<close> comes before
  \<^verbatim>\<open>a\<close>. A stable sort by insertion or by merging makes two elements neighbours only
  on the answer of a comparison of the two, or leaves them neighbours as it found them
  in a run, whether the comparator is consistent or not.
\<close>

definition in_order :: "('a \<Rightarrow> 'a \<Rightarrow> int) \<Rightarrow> 'a \<Rightarrow> 'a \<Rightarrow> bool" where
  "in_order cmp a b = (cmp a b \<le> 0 \<or> 0 \<le> cmp b a)"

definition engine_sort :: "(('a \<Rightarrow> 'a \<Rightarrow> int) \<Rightarrow> 'a list \<Rightarrow> 'a list) \<Rightarrow> bool" where
  "engine_sort sorter =
     (\<forall>cmp xs. mset (sorter cmp xs) = mset xs \<and> successively (in_order cmp) (sorter cmp xs))"

definition getSortedRows ::
  "((row \<Rightarrow> row \<Rightarrow> int) \<Rightarrow> row list \<Rightarrow> row list)
     \<Rightarrow> (jsval \<Rightarrow> jsval \<Rightarrow> bool) \<Rightarrow> (jsval \<Rightarrow> jsval \<Rightarrow> bool) \<Rightarrow> state \<Rightarrow> row list" where
  "getSortedRows sorter strict_eq gt s =
     (case sortColumns s of
        [] \<Rightarrow> current_rows s
      | sc # rest \<Rightarrow> sorter (compare_rows strict_eq gt sc) (current_rows s))"

section \<open>The spreadsheet import\<close>

text \<open>
  The sheet as the library hands it over: a list of rows, each a list of cells. Reading a
  row beyond its end gives \<^verbatim>\<open>undefined\<close>.
\<close>

type_synonym sheet = "prim list list"

definition cell_at :: "prim list \<Rightarrow> nat \<Rightarrow> prim" where
  "cell_at r i = (if i < length r then r ! i else Undefined)"

text \<open>The test \<^verbatim>\<open>cell && String(cell).trim() !== ''\<close>.\<close>

definition non_empty :: "prim \<Rightarrow> bool" where
  "non_empty c = (truthy c \<and> trim (js_String c) \<noteq> [])"

text \<open>The elements of \<^verbatim>\<open>new Set(xs)\<close> in the order of their first occurrence.\<close>

definition unique :: "'a list \<Rightarrow> 'a list" where
  "unique xs = rev (remdups (rev xs))"

definition isVertical :: "sheet \<Rightarrow> bool" where
  "isVertical rows2D =
     (let firstCol = filter non_empty (map (\<lambda>r. cell_at r 0) rows2D);
          uniqueFirstCol = unique firstCol;
          mostlyEmptyRest =
            list_all (\<lambda>r. list_all (\<lambda>cell. \<not> truthy cell \<or> trim (js_String cell) = []) (drop 2 r)) rows2D
      in 3 < length uniqueFirstCol \<and> mostlyEmptyRest)"

text \<open>
  The objects the import builds hold cells. An assignment \<^verbatim>\<open>obj[k] = v\<close> of a cell to
  the name \<^verbatim>\<open>__proto__\<close> is ignored; a property name that is not a string is turned
  into one.
\<close>

type_synonym cell_obj = "(string \<times> prim) list"

definition cell_assign :: "cell_obj \<Rightarrow> string \<Rightarrow> prim \<Rightarrow> cell_obj" where
  "cell_assign ob k v = (if k = ''__proto__'' then ob else AList.update k v ob)"

definition to_row :: "cell_obj \<Rightarrow> row" where
  "to_row ob = map (\<lambda>(k, v). (k, Prim v)) ob"

text \<open>The filter \<^verbatim>\<open>Object.values(row).some(v => v && String(v).trim() !== '')\<close>.\<close>

definition has_value :: "cell_obj \<Rightarrow> bool" where
  "has_value ob = list_ex (\<lambda>(k, v). non_empty v) ob"

definition imported_column :: "string \<Rightarrow> string \<Rightarrow> column" where
  "imported_column k n =
     \<lparr>col_key = k, col_name = n, editable = Some True, sortable = None, isDefault = None,
      renderEditCell = Some ''input'', renderCell = None, renderHeaderCell = None\<rparr>"

text \<open>The first error of a list of results, or all the values.\<close>

fun collect :: "(error + 'a) list \<Rightarrow> error + 'a list" where
  "collect [] = Inr []"
| "collect (Inl e # rs) = Inl e"
| "collect (Inr x # rs) = (case collect rs of Inl e \<Rightarrow> Inl e | Inr xs \<Rightarrow> Inr (x # xs))"

subsection \<open>Vertical sheets\<close>

text \<open>
  One step of the loop that groups the rows into blocks; the state is the finished
  blocks, the current block and the field names seen in it.
\<close>

definition block_step ::
  "prim list list list \<times> prim list list \<times> prim list \<Rightarrow> prim list
     \<Rightarrow> prim list list list \<times> prim list list \<times> prim list" where
  "block_step st r =
     (case st of (blocks, currentBlock, seenFields) \<Rightarrow>
        let k = cell_at r 0;
            st' = (if \<not> truthy k \<or> k \<in> set seenFields
                   then ((if currentBlock \<noteq> [] then blocks @ [currentBlock] else blocks), [], [])
                   else (blocks, currentBlock, seenFields))
        in case st' of (blocks', currentBlock', seenFields') \<Rightarrow>
             if truthy k then (blocks', currentBlock' @ [r], seenFields' @ [k])
             else (blocks', currentBlock', seenFields'))"

definition blocks_of :: "sheet \<Rightarrow> prim list list list" where
  "blocks_of rows2D =
     (case foldl block_step ([], [], []) rows2D of (blocks, currentBlock, seenFields) \<Rightarrow>
        if currentBlock \<noteq> [] then blocks @ [currentBlock] else blocks)"

definition allKeys_of :: "prim list list list \<Rightarrow> prim list" where
  "allKeys_of blocks = unique (concat (map (map (\<lambda>r. cell_at r 0)) blocks))"

text \<open>
  A column of a vertical sheet. The name is built with string methods on the key (or, for
  a key that is falsy, on a placeholder), which throw when the key is a number or a
  boolean.
\<close>

definition vertical_column :: "prim \<Rightarrow> nat \<Rightarrow> error + column" where
  "vertical_column k i =
     (if truthy k then
        (case k of Str s \<Rightarrow> Inr (imported_column s (capitalize s)) | _ \<Rightarrow> Inl TypeError)
      else Inr (imported_column (js_String k) (capitalize (''__EMPTY_'' @ show_nat i))))"

definition vertical_row :: "prim list \<Rightarrow> nat \<Rightarrow> prim list list \<Rightarrow> cell_obj" where
  "vertical_row allKeys idx block =
     (let ob1 = foldl (\<lambda>ob r. cell_assign ob (js_String (cell_at r 0)) (or_empty (cell_at r 1))) [] block;
          ob2 = foldl (\<lambda>ob k. if \<not> obj_in (js_String k) ob then cell_assign ob (js_String k) (Str [])
                               else ob) ob1 allKeys
      in cell_assign ob2 ''_rowIndex'' (Num (int idx)))"

definition import_vertical :: "sheet \<Rightarrow> error + column list \<times> row list" where
  "import_vertical rows2D =
     (let blocks = blocks_of rows2D;
          allKeys = allKeys_of blocks
      in case collect (map (\<lambda>(i, k). vertical_column k i) (List.enumerate 0 allKeys)) of
           Inl e \<Rightarrow> Inl e
         | Inr importedColumns \<Rightarrow>
             let formattedRows =
                   filter has_value (map (\<lambda>(idx, block). vertical_row allKeys idx block)
                                       (List.enumerate 0 blocks))
             in Inr (importedColumns, map to_row formattedRows))"

subsection \<open>Horizontal sheets\<close>

text \<open>The score of a row: the number of distinct non-empty values.\<close>

definition score :: "prim list \<Rightarrow> nat" where
  "score r = length (unique (filter non_empty r))"

text \<open>
  The scan of the first ten rows; the state is the greatest score so far and the index
  that reached it first.
\<close>

definition header_step :: "sheet \<Rightarrow> int \<times> nat \<Rightarrow> nat \<Rightarrow> int \<times> nat" where
  "header_step rows2D st i =
     (case st of (maxScore, headerRowIndex) \<Rightarrow>
        if maxScore < int (score (rows2D ! i)) then (int (score (rows2D ! i)), i)
        else (maxScore, headerRowIndex))"

definition headerRowIndex :: "sheet \<Rightarrow> nat" where
  "headerRowIndex rows2D =
     snd (foldl (header_step rows2D) (- 1, 0) [0..<min 10 (length rows2D)])"

text \<open>
  The key of a header cell: \<^verbatim>\<open>(key || '').trim().toLowerCase().replace(/\s+/g, '_')\<close>,
  which throws on a number other than 0 and on \<^verbatim>\<open>true\<close>.
\<close>

definition normalizeKey :: "prim \<Rightarrow> error + string" where
  "normalizeKey k =
     (if truthy k then (case k of Str s \<Rightarrow> Inr (normalize s) | _ \<Rightarrow> Inl TypeError)
      else Inr (normalize []))"

definition horizontal_row :: "string list \<Rightarrow> nat \<Rightarrow> prim list \<Rightarrow> cell_obj" where
  "horizontal_row normHeaders idx r =
     (let ob = foldl (\<lambda>ob (i, header). cell_assign ob header (or_empty (cell_at r i))) []
                 (List.enumerate 0 normHeaders)
      in cell_assign ob ''_rowIndex'' (Num (int idx)))"

text \<open>The rows after the header row that hold a non-empty cell.\<close>

definition dataRows_of :: "sheet \<Rightarrow> sheet" where
  "dataRows_of rows2D = filter (list_ex non_empty) (drop (headerRowIndex rows2D + 1) rows2D)"

definition import_horizontal :: "sheet \<Rightarrow> error + column list \<times> row list" where
  "import_horizontal rows2D =
     (let headers = rows2D ! headerRowIndex rows2D;
          dataRows = dataRows_of rows2D
      in case collect (map normalizeKey headers) of
           Inl e \<Rightarrow> Inl e
         | Inr normHeaders \<Rightarrow>
             let formattedRows =
                   filter has_value (map (\<lambda>(idx, r). horizontal_row normHeaders idx r)
                                       (List.enumerate 0 dataRows));
                 importedColumns = map (\<lambda>k. imported_column k (capitalize k)) normHeaders
             in Inr (importedColumns, map to_row formattedRows))"

subsection \<open>The handler\<close>

text \<open>
  What the import makes of a sheet: nothing for a sheet without rows (the handler returns
  at once), else the columns and rows of the vertical or the horizontal reading. The
  header row read in the horizontal case is always there, since the index is below the
  number of rows.
\<close>

definition parse_sheet :: "sheet \<Rightarrow> error + (column list \<times> row list) option" where
  "parse_sheet rows2D =
     (if rows2D = [] then Inr None
      else case (if isVertical rows2D then import_vertical rows2D else import_horizontal rows2D) of
             Inl e \<Rightarrow> Inl e
           | Inr d \<Rightarrow> Inr (Some d))"

definition handleImportExcel :: "sheet \<Rightarrow> state \<Rightarrow> error + state" where
  "handleImportExcel rows2D s =
     (case parse_sheet rows2D of
        Inl e \<Rightarrow> Inl e
      | Inr None \<Rightarrow> Inr s
      | Inr (Some (cols, rs)) \<Rightarrow>
          updateCurrentData \<lparr>u_name = None, u_columns = Some cols, u_rows = Some rs\<rparr> s)"

section \<open>Reference notions and sample states\<close>

text \<open>
  The id that a reading by the numeric ids alone would give a new row: 1 when no row has
  a numeric id, else one more than the greatest numeric id.
\<close>

definition numeric_ids :: "row list \<Rightarrow> int list" where
  "numeric_ids rs =
     concat (map (\<lambda>r. case obj_get r ''id'' of Prim (Num n) \<Rightarrow> [n] | _ \<Rightarrow> []) rs)"

definition id_above_numeric_ids :: "row list \<Rightarrow> int" where
  "id_above_numeric_ids rs =
     (if numeric_ids rs = [] then 1 else Max (set (numeric_ids rs)) + 1)"

text \<open>A state with one scorecard, which is selected.\<close>

definition sample_state :: "column list \<Rightarrow> row list \<Rightarrow> state" where
  "sample_state cols rs =
     \<lparr>scorecards = [\<lparr>sc_id = ''scorecard_1'', sc_name = ''Card'', sc_columns = cols, sc_rows = rs,
                      createdAt = Date ''2025-01-01T00:00:00.000Z''\<rparr>],
      selectedCategory = Some ''scorecard_1'', categoryData = [], userRole = ''ADMIN'',
      sortColumns = [], showAddColModal = False, newColName = [], colError = [],
      openCommentRowId = None, commentInput = [], user = None, comments = [], subGrids = [],
      localStorage = Map.empty\<rparr>"

text \<open>The state after mounting with empty storage: nothing is selected.\<close>

definition initial_state :: state where
  "initial_state =
     \<lparr>scorecards = [], selectedCategory = None, categoryData = [], userRole = ''ADMIN'',
      sortColumns = [], showAddColModal = False, newColName = [], colError = [],
      openCommentRowId = None, commentInput = [], user = None, comments = [], subGrids = [],
      localStorage = [''scorecards'' \<mapsto> Doc (JArr [])]\<rparr>"

definition sample_rows :: "row list" where
  "sample_rows =
     [[(''id'', Prim (Num 1)), (''name'', Prim (Str ''Item 1''))],
      [(''id'', Prim (Num 2)), (''name'', Prim (Str ''Item 2''))]]"

definition sample_columns :: "column list" where
  "sample_columns =
     [plain_column ''name'' ''Retailer Name'', plain_column ''retail_price'' ''Retail Price'']"

definition odd_rows :: "row list" where
  "odd_rows = [[(''id'', Prim (Num (- 5)))], [(''id'', Prim (Str ''a''))]]"

text \<open>What the current grid holds after an update is merged into it.\<close>

definition merged :: "updates \<Rightarrow> column list \<times> row list \<Rightarrow> column list \<times> row list" where
  "merged u d =
     ((case u_columns u of None \<Rightarrow> fst d | Some cs \<Rightarrow> map blank_comments cs),
      (case u_rows u of None \<Rightarrow> snd d | Some rs \<Rightarrow> rs))"

text \<open>The row that adding a row builds.\<close>

definition new_row :: "column list \<Rightarrow> row list \<Rightarrow> row" where
  "new_row cols rs = fill_new_row cols [(''id'', Prim (Num (next_id rs))), (''name'', Prim (Str []))]"

text \<open>
  One sort that meets what is required of the engine's, the one an engine runs on a short
  array: the leading run is found, and reversed when it descends; then every further
  element is put into the sorted front at the place a binary search gives.
\<close>

function bsearch :: "('a \<Rightarrow> 'a \<Rightarrow> int) \<Rightarrow> 'a \<Rightarrow> 'a list \<Rightarrow> nat \<Rightarrow> nat \<Rightarrow> nat" where
  "bsearch cmp pivot xs left right =
     (if left < right then
        (let mid = left + (right - left) div 2 in
         if cmp pivot (xs ! mid) < 0 then bsearch cmp pivot xs left mid
         else bsearch cmp pivot xs (mid + 1) right)
      else left)"
  by pat_completeness auto
termination
  by (relation "measure (\<lambda>(cmp, pivot, xs, left, right). right - left)") auto

declare bsearch.simps [simp del]

definition binary_insert :: "('a \<Rightarrow> 'a \<Rightarrow> int) \<Rightarrow> 'a list \<Rightarrow> 'a \<Rightarrow> 'a list" where
  "binary_insert cmp xs pivot =
     (let p = bsearch cmp pivot xs 0 (length xs) in take p xs @ pivot # drop p xs)"

fun run_more :: "('a \<Rightarrow> 'a \<Rightarrow> int) \<Rightarrow> bool \<Rightarrow> 'a \<Rightarrow> 'a list \<Rightarrow> nat" where
  "run_more cmp descending previous [] = 0"
| "run_more cmp descending previous (x # xs) =
     (if (cmp x previous < 0) = descending then Suc (run_more cmp descending x xs) else 0)"

definition short_sort :: "('a \<Rightarrow> 'a \<Rightarrow> int) \<Rightarrow> 'a list \<Rightarrow> 'a list" where
  "short_sort cmp xs =
     (case xs of
        [] \<Rightarrow> []
      | [x] \<Rightarrow> [x]
      | x0 # x1 # rest \<Rightarrow>
          let descending = (cmp x1 x0 < 0);
              n = 2 + run_more cmp descending x1 rest;
              run = (if descending then rev (take n xs) else take n xs)
          in foldl (binary_insert cmp) run (drop n xs))"

text \<open>A greater-than test that orders numbers, for the sample sort.\<close>

definition number_gt :: "jsval \<Rightarrow> jsval \<Rightarrow> bool" where
  "number_gt a b = (case (a, b) of (Prim (Num x), Prim (Num y)) \<Rightarrow> y < x | _ \<Rightarrow> False)"

definition scored_rows :: "row list" where
  "scored_rows =
     [[(''id'', Prim (Num 1)), (''score'', Prim Null)],
      [(''id'', Prim (Num 2)), (''score'', Prim (Num 5))],
      [(''id'', Prim (Num 3))],
      [(''id'', Prim (Num 4)), (''score'', Prim (Num 7))]]"


definition sample_subgrid :: subgrid where
  "sample_subgrid =
     \<lparr>sg_columns = Some [plain_column ''note'' ''Note'', plain_column ''x'' ''X''],
      sg_rows = [[(''id'', Prim (Num 1)), (''note'', Prim (Str ''call'')), (''x'', Prim (Str ''y''))]],
      sg_expanded = Some True\<rparr>"

definition subgrid_state :: state where
  "subgrid_state = (sample_state sample_columns sample_rows)\<lparr>subGrids := [(''1'', sample_subgrid)]\<rparr>"

text \<open>
  Every column keyed \<^verbatim>\<open>comments\<close> has the blank name and the header that renders
  nothing. The columns of the selected scorecard are so whenever a handler runs: the
  effect that follows a selection writes them through \<^verbatim>\<open>updateCurrentData\<close>, and so
  does every later change of the columns.
\<close>

definition comments_blank :: "column list \<Rightarrow> bool" where
  "comments_blank cols =
     (\<forall>c\<in>set cols. col_key c = ''comments'' \<longrightarrow>
        col_name c = [] \<and> renderHeaderCell c = Some ''() => null'')"




text \<open>The add-column dialog holding a fresh name, a blank name and a name already in use.\<close>

definition adding_state :: "string \<Rightarrow> state" where
  "adding_state n = (sample_state sample_columns sample_rows)\<lparr>newColName := n, showAddColModal := True\<rparr>"

text \<open>The comment drawer open on row 1 with some text typed.\<close>

definition commenting_state :: "string \<Rightarrow> state" where
  "commenting_state input =
     (sample_state sample_columns sample_rows)\<lparr>commentInput := input, openCommentRowId := Some 1\<rparr>"

text \<open>Local storage holds the JSON text of the current scorecards, of the current comments.\<close>

definition scorecards_stored :: "state \<Rightarrow> bool" where
  "scorecards_stored s =
     (localStorage s ''scorecards'' = Some (stored_of (Arr (map js_of_scorecard (scorecards s)))))"

definition comments_stored :: "state \<Rightarrow> bool" where
  "comments_stored s =
     (localStorage s ''scorecardComments'' = Some (stored_of (js_of_comments (comments s))))"

text \<open>The sample state once the effect has written the scorecards.\<close>

definition saved_state :: state where
  "saved_state = setScorecards id (sample_state sample_columns sample_rows)"

text \<open>Plain JSON data: no \<^verbatim>\<open>undefined\<close>, no function and no \<^verbatim>\<open>Date\<close> anywhere inside.\<close>

fun json_data :: "jsval \<Rightarrow> bool"
  and json_data_list :: "jsval list \<Rightarrow> bool"
  and json_data_props :: "(string \<times> jsval) list \<Rightarrow> bool" where
  "json_data (Prim p) = (p \<noteq> Undefined)"
| "json_data (Date d) = False"
| "json_data (Func f) = False"
| "json_data (Arr xs) = json_data_list xs"
| "json_data (Obj kvs) = json_data_props kvs"
| "json_data_list [] = True"
| "json_data_list (x # xs) = (json_data x \<and> json_data_list xs)"
| "json_data_props [] = True"
| "json_data_props ((k, v) # kvs) = (json_data v \<and> json_data_props kvs)"

text \<open>
  What a saved scorecard is read back as: its columns without the three rendering
  functions, and the creation date as the text of the date.
\<close>

definition loaded_column :: "column \<Rightarrow> jsval" where
  "loaded_column c =
     js_of_column (c\<lparr>renderEditCell := None, renderCell := None, renderHeaderCell := None\<rparr>)"

definition loaded_scorecard :: "scorecard \<Rightarrow> jsval" where
  "loaded_scorecard sc =
     Obj [(''id'', Prim (Str (sc_id sc))),
          (''name'', Prim (Str (sc_name sc))),
          (''columns'', Arr (map loaded_column (sc_columns sc))),
          (''rows'', Arr (map Obj (sc_rows sc))),
          (''createdAt'', (case createdAt sc of Date d \<Rightarrow> Prim (Str d) | v \<Rightarrow> v))]"

text \<open>A scorecard as creating one makes it: an editable column with its editor, two rows, a date.\<close>

definition fresh_scorecard :: scorecard where
  "fresh_scorecard =
     \<lparr>sc_id = ''scorecard_1700000000000'', sc_name = ''Q1'',
      sc_columns = [(plain_column ''name'' ''Retailer Name'')\<lparr>isDefault := Some True\<rparr>,
                    (plain_column ''buyer'' ''Buyer'')\<lparr>isDefault := Some True, renderEditCell := Some ''input''\<rparr>],
      sc_rows = sample_rows,
      createdAt = Date ''2023-11-14T22:13:20.000Z''\<rparr>"

text \<open>The same scorecard as it is held after a reload.\<close>

definition reloaded_scorecard :: scorecard where
  "reloaded_scorecard =
     \<lparr>sc_id = ''scorecard_1700000000000'', sc_name = ''Q1'',
      sc_columns = [(plain_column ''name'' ''Retailer Name'')\<lparr>isDefault := Some True\<rparr>,
                    (plain_column ''buyer'' ''Buyer'')\<lparr>isDefault := Some True\<rparr>],
      sc_rows = sample_rows,
      createdAt = Prim (Str ''2023-11-14T22:13:20.000Z'')\<rparr>"

text \<open>
  A cell that the key-building string methods accept: text, or a falsy value. The key
  that a header cell of this kind gets.
\<close>

definition text_or_empty :: "prim \<Rightarrow> bool" where
  "text_or_empty c = (truthy c \<longrightarrow> (\<exists>s. c = Str s))"

definition header_key :: "prim \<Rightarrow> string" where
  "header_key c = (case c of Str s \<Rightarrow> normalize s | _ \<Rightarrow> [])"

text \<open>Sample sheets.\<close>

definition price_sheet :: sheet where
  "price_sheet =
     [[Str ''Name'', Str ''Unit Price''],
      [Str ''Acme'', Num 3],
      [Str [], Str []],
      [Str ''Bolt'', Num 0]]"

definition repeated_header_sheet :: sheet where
  "repeated_header_sheet =
     [[Str ''x'', Str ''y'', Str ''y''],
      [Str [], Str ''v'', Str []]]"

text \<open>
  A sheet with an \<^verbatim>\<open>id\<close> column that holds the 53rd power of two, and the sample state
  after it is imported.
\<close>

definition big_id_sheet :: sheet where
  "big_id_sheet = [[Str ''id''], [Num 9007199254740992]]"

definition imported_state :: state where
  "imported_state =
     state_after (handleImportExcel big_id_sheet (sample_state sample_columns sample_rows))
       (sample_state sample_columns sample_rows)"

definition proto_header_sheet :: sheet where
  "proto_header_sheet = [[Str ''__proto__'', Str ''b''], [Str ''v'', Str []]]"

definition year_sheet :: sheet where
  "year_sheet = [[Num 2023, Num 2024], [Num 1, Num 2]]"

definition contact_sheet :: sheet where
  "contact_sheet =
     [[Str ''name'', Str ''Acme''],
      [Str ''city'', Str ''Oslo''],
      [Str ''zip'', Num 7],
      [Str ''tel'', Str ''1''],
      [Str [], Str []],
      [Str ''name'', Str ''Bolt''],
      [Str ''city'', Str ''Rome'']]"

definition blank_values_sheet :: sheet where
  "blank_values_sheet =
     [[Str ''a'', Str []], [Str ''b'', Str []], [Str ''c'', Str []], [Str ''d'', Str []]]"

definition proto_field_sheet :: sheet where
  "proto_field_sheet =
     [[Str ''__proto__'', Str ''x''], [Str [], Str []],
      [Str ''a'', Str []], [Str ''b'', Str []], [Str ''c'', Str []], [Str ''d'', Str []]]"

text \<open>
  The blocks of a vertical sheet, read off the sheet: a block is a longest run of rows
  whose first cells are truthy and do not repeat within the run; rows with a falsy first
  cell lie between blocks.
\<close>

fun field_run :: "prim list \<Rightarrow> sheet \<Rightarrow> sheet" where
  "field_run seen [] = []"
| "field_run seen (r # rs) =
     (if truthy (cell_at r 0) \<and> cell_at r 0 \<notin> set seen
      then r # field_run (seen @ [cell_at r 0]) rs else [])"

function split_blocks :: "sheet \<Rightarrow> prim list list list" where
  "split_blocks [] = []"
| "split_blocks (r # rs) =
     (if \<not> truthy (cell_at r 0) then split_blocks rs
      else (r # field_run [cell_at r 0] rs)
             # split_blocks (drop (length (field_run [cell_at r 0] rs)) rs))"
  by pat_completeness auto
termination
  by (relation "measure length") auto

section \<open>The current grid after an update\<close>

lemma startsWith_nonempty: "startsWith c ''scorecard_'' \<Longrightarrow> c \<noteq> []"
  by (auto simp: startsWith_def)

lemma startsWith_not_Retailers: "startsWith c ''scorecard_'' \<Longrightarrow> c \<noteq> ''Retailers''"
  by (auto simp: startsWith_def)

lemma sc_id_apply_updates: "sc_id (apply_updates u sc) = sc_id sc"
  by (simp add: apply_updates_def)

lemma find_map_apply_updates:
  "find (\<lambda>sc. sc_id sc = c) (map (\<lambda>sc. if sc_id sc = c then apply_updates u sc else sc) scs)
     = map_option (apply_updates u) (find (\<lambda>sc. sc_id sc = c) scs)"
  by (induction scs) (auto simp: sc_id_apply_updates)

lemma getCurrentData_SomeD:
  assumes "getCurrentData s = Some (cols, rs)"
  obtains c sc where "selectedCategory s = Some c" "startsWith c ''scorecard_''"
    "find (\<lambda>sc. sc_id sc = c) (scorecards s) = Some sc" "cols = sc_columns sc" "rs = sc_rows sc"
  using assms by (auto simp: getCurrentData_def split: option.splits if_splits)

lemma selectedCategory_setScorecards [simp]: "selectedCategory (setScorecards f s) = selectedCategory s"
  and scorecards_setScorecards [simp]: "scorecards (setScorecards f s) = f (scorecards s)"
  by (simp_all add: setScorecards_def saveScoreCardsToStorage_def)

lemma updateCurrentData_current:
  assumes "getCurrentData s = Some d"
  shows "\<exists>s'. updateCurrentData u s = Inr s' \<and> getCurrentData s' = Some (merged u d)
           \<and> selectedCategory s' = selectedCategory s"
proof -
  obtain cols rs where d: "d = (cols, rs)" by (cases d)
  from assms[unfolded d] obtain c sc where c: "selectedCategory s = Some c" "startsWith c ''scorecard_''"
    "find (\<lambda>sc. sc_id sc = c) (scorecards s) = Some sc" "cols = sc_columns sc" "rs = sc_rows sc"
    by (rule getCurrentData_SomeD)
  show ?thesis
    using c startsWith_nonempty[OF c(2)]
    by (auto simp: updateCurrentData_def Let_def updateScoreCard_def getCurrentData_def d merged_def
        find_map_apply_updates apply_updates_def split: option.splits)
qed

lemma proto_in_keys: "''__proto__'' \<in> set object_prototype_keys"
  by (simp add: object_prototype_keys_def)

lemma map_of_fill_new_row:
  "map_of (fill_new_row cols r) k =
     (if k \<in> fst ` set r then map_of r k
      else if k \<in> col_key ` set cols \<and> k \<noteq> ''id'' \<and> k \<noteq> ''delete'' \<and> k \<notin> set object_prototype_keys
           then Some (Prim (Str [])) else None)"
proof (induction cols arbitrary: r)
  case Nil
  show ?case by (auto simp: fill_new_row_def map_of_eq_None_iff)
next
  case (Cons col cols)
  let ?r' = "if col_key col \<noteq> ''id'' \<and> col_key col \<noteq> ''delete'' \<and> \<not> obj_in (col_key col) r
        then obj_assign r (col_key col) (Str []) else r"
  have step: "fill_new_row (col # cols) r = fill_new_row cols ?r'"
    by (simp add: fill_new_row_def)
  have keys: "fst ` set ?r' = (if col_key col \<noteq> ''id'' \<and> col_key col \<noteq> ''delete'' \<and> \<not> obj_in (col_key col) r
        then insert (col_key col) (fst ` set r) else fst ` set r)"
    using proto_in_keys
    by (auto simp: obj_assign_def obj_in_def dom_map_of_conv_image_fst[symmetric] update_conv' simp del: fun_upd_apply)
  have look: "map_of ?r' k = (if col_key col \<noteq> ''id'' \<and> col_key col \<noteq> ''delete'' \<and> \<not> obj_in (col_key col) r \<and> k = col_key col
        then Some (Prim (Str [])) else map_of r k)"
    using proto_in_keys
    by (auto simp: obj_assign_def obj_in_def update_conv')
  show ?case
    unfolding step Cons.IH keys look
    by (auto simp: obj_in_def map_of_eq_None_iff)
qed

lemma spacing_small: "m < 2 ^ 53 \<Longrightarrow> spacing m = 1"
  by (simp add: spacing.simps)

lemma to_double_safe:
  assumes "\<bar>x\<bar> \<le> 2 ^ 53"
  shows "to_double x = x"
proof (cases "\<bar>x\<bar> < 2 ^ 53")
  case True
  then have "nat \<bar>x\<bar> < 2 ^ 53" by simp
  then have "spacing (nat \<bar>x\<bar>) = 1" by (rule spacing_small)
  then show ?thesis by (simp add: to_double_def)
next
  case False
  with assms have e: "\<bar>x\<bar> = 2 ^ 53" by simp
  then have n: "nat \<bar>x\<bar> = 2 ^ 53" by simp
  have "spacing (2 ^ 53) = 2 * spacing (2 ^ 52)"
    by (subst spacing.simps) simp
  also have "spacing (2 ^ 52) = 1" by (rule spacing_small) simp
  finally have u: "spacing (nat \<bar>x\<bar>) = 2" using n by simp
  from e have "x = 2 ^ 53 \<or> x = - (2 ^ 53)" by (auto simp: abs_if split: if_splits)
  then show ?thesis unfolding to_double_def u by auto
qed

lemma next_id_Max:
  "next_id rs = (if rs = [] then 1 else to_double (Max (set (map numeric_id_or_0 rs)) + 1))"
proof (cases rs)
  case Nil
  then show ?thesis by (simp add: next_id_def)
next
  case (Cons r rs')
  then show ?thesis
    using Max.set_eq_fold[of "numeric_id_or_0 r" "map numeric_id_or_0 rs'"]
    by (simp add: next_id_def js_plus_def)
qed

lemma Max_ids_safe:
  assumes "rs \<noteq> []" "\<forall>r\<in>set rs. \<bar>numeric_id_or_0 r\<bar> < 2 ^ 53"
  shows "\<bar>Max (set (map numeric_id_or_0 rs)) + 1\<bar> \<le> 2 ^ 53"
proof -
  have "Max (set (map numeric_id_or_0 rs)) \<in> set (map numeric_id_or_0 rs)"
    using assms(1) by (intro Max_in) auto
  then obtain r where "r \<in> set rs" "Max (set (map numeric_id_or_0 rs)) = numeric_id_or_0 r"
    by auto
  with assms(2) have "\<bar>Max (set (map numeric_id_or_0 rs))\<bar> < 2 ^ 53" by auto
  then show ?thesis by linarith
qed

lemma next_id_safe:
  assumes "\<forall>r\<in>set rs. \<bar>numeric_id_or_0 r\<bar> < 2 ^ 53"
  shows "next_id rs = (if rs = [] then 1 else Max (set (map numeric_id_or_0 rs)) + 1)"
  using to_double_safe[OF Max_ids_safe[OF _ assms]] by (simp add: next_id_Max)

lemma numeric_id_less_next_id:
  assumes "\<forall>r\<in>set rs. \<bar>numeric_id_or_0 r\<bar> < 2 ^ 53" "r \<in> set rs" "obj_get r ''id'' = Prim (Num n)"
  shows "n < next_id rs"
proof -
  have "numeric_id_or_0 r = n" using assms(3) by (simp add: numeric_id_or_0_def)
  then have "n \<in> set (map numeric_id_or_0 rs)" using assms(2) by force
  then have "n \<le> Max (set (map numeric_id_or_0 rs))" by simp
  moreover have "rs \<noteq> []" using assms(2) by auto
  ultimately show ?thesis by (simp add: next_id_safe[OF assms(1)])
qed

lemma col_key_blank_comments [simp]: "col_key (blank_comments c) = col_key c"
  by (simp add: blank_comments_def)


lemma blank_comments_other: "col_key c \<noteq> ''comments'' \<Longrightarrow> blank_comments c = c"
  by (simp add: blank_comments_def)

lemma getCurrentData_colError [simp]: "getCurrentData (s\<lparr>colError := e\<rparr>) = getCurrentData s"
  by (simp add: getCurrentData_def cong: option.case_cong if_cong)

lemma getCurrentData_newColName [simp]: "getCurrentData (s\<lparr>newColName := n\<rparr>) = getCurrentData s"
  by (simp add: getCurrentData_def cong: option.case_cong if_cong)

lemma getCurrentData_showAddColModal [simp]:
  "getCurrentData (s\<lparr>showAddColModal := b\<rparr>) = getCurrentData s"
  by (simp add: getCurrentData_def cong: option.case_cong if_cong)

lemma blank_comments_idem [simp]: "blank_comments (blank_comments c) = blank_comments c"
  by (simp add: blank_comments_def)


lemma trim_blank: "trim ''  '' = []"
  by code_simp

subsection \<open>Cells that count as values\<close>

lemma is_ws_iff: "is_ws c \<longleftrightarrow> (of_char c :: nat) \<in> {9, 10, 11, 12, 13, 32}"
proof -
  have e: "\<And>d. c = d \<longleftrightarrow> (of_char c :: nat) = of_char d" by simp
  show ?thesis unfolding is_ws_def by (simp only: set_simps insert_iff empty_iff e) simp
qed

lemma digit_not_ws: "d < 10 \<Longrightarrow> \<not> is_ws (digit_char d)"
  by (simp add: is_ws_iff digit_char_def)

lemma show_nat_not_blank: "\<exists>c\<in>set (show_nat n). \<not> is_ws c"
proof (induction n rule: show_nat.induct)
  case (1 n)
  show ?case
  proof (cases "n < 10")
    case True
    then show ?thesis by (subst show_nat.simps) (simp add: digit_not_ws)
  next
    case False
    have "n mod 10 < 10" by simp
    then have "\<not> is_ws (digit_char (n mod 10))" by (rule digit_not_ws)
    with False show ?thesis by (subst show_nat.simps) simp
  qed
qed

lemma in_set_dropWhile: "x \<in> set xs \<Longrightarrow> \<not> P x \<Longrightarrow> x \<in> set (dropWhile P xs)"
  by (induction xs) auto

lemma trim_not_blank: "\<exists>c\<in>set s. \<not> is_ws c \<Longrightarrow> trim s \<noteq> []"
proof -
  assume "\<exists>c\<in>set s. \<not> is_ws c"
  then obtain c where c: "c \<in> set s" "\<not> is_ws c" by blast
  then have "c \<in> set (dropWhile is_ws s)" by (rule in_set_dropWhile)
  then have "c \<in> set (rev (dropWhile is_ws s))" by simp
  then have "c \<in> set (dropWhile is_ws (rev (dropWhile is_ws s)))"
    using c(2) by (rule in_set_dropWhile)
  then have "dropWhile is_ws (rev (dropWhile is_ws s)) \<noteq> []" by force
  then show ?thesis by (simp add: trim_def)
qed

lemma non_empty_Num: "n \<noteq> 0 \<Longrightarrow> non_empty (Num n)"
proof -
  assume n: "n \<noteq> 0"
  have "\<exists>c\<in>set (show_int n). \<not> is_ws c"
    using show_nat_not_blank by (auto simp: show_int_def)
  then show ?thesis using n by (simp add: non_empty_def trim_not_blank)
qed

lemma non_empty_Num_iff: "non_empty (Num n) \<longleftrightarrow> n \<noteq> 0"
  using non_empty_Num[of n] by (auto simp: non_empty_def)

lemma non_empty_or_empty_iff: "non_empty (or_empty c) \<longleftrightarrow> non_empty c"
  by (cases c) (auto simp: non_empty_def trim_def)

lemma map_of_rev_Some_iff:
  "map_of (rev kvs) k = Some v \<longleftrightarrow>
     (\<exists>i<length kvs. kvs ! i = (k, v) \<and> (\<forall>j. i < j \<and> j < length kvs \<longrightarrow> fst (kvs ! j) \<noteq> k))"
proof (induction kvs rule: rev_induct)
  case Nil
  show ?case by simp
next
  case (snoc x xs)
  show ?case
  proof (cases "fst x = k")
    case True
    have "(\<exists>i<length (xs @ [x]). (xs @ [x]) ! i = (k, v)
            \<and> (\<forall>j. i < j \<and> j < length (xs @ [x]) \<longrightarrow> fst ((xs @ [x]) ! j) \<noteq> k))
        \<longleftrightarrow> x = (k, v)"
    proof
      assume "\<exists>i<length (xs @ [x]). (xs @ [x]) ! i = (k, v)
            \<and> (\<forall>j. i < j \<and> j < length (xs @ [x]) \<longrightarrow> fst ((xs @ [x]) ! j) \<noteq> k)"
      then obtain i where i: "i < length (xs @ [x])" "(xs @ [x]) ! i = (k, v)"
        "\<forall>j. i < j \<and> j < length (xs @ [x]) \<longrightarrow> fst ((xs @ [x]) ! j) \<noteq> k" by blast
      have "i = length xs"
      proof (rule ccontr)
        assume "i \<noteq> length xs"
        with i(1) have "i < length xs" by simp
        with i(3)[rule_format, of "length xs"] True show False by simp
      qed
      with i(2) show "x = (k, v)" by simp
    next
      assume "x = (k, v)"
      then show "\<exists>i<length (xs @ [x]). (xs @ [x]) ! i = (k, v)
            \<and> (\<forall>j. i < j \<and> j < length (xs @ [x]) \<longrightarrow> fst ((xs @ [x]) ! j) \<noteq> k)"
        by (intro exI[of _ "length xs"]) auto
    qed
    with True show ?thesis by (cases x) auto
  next
    case False
    have "(\<exists>i<length (xs @ [x]). (xs @ [x]) ! i = (k, v)
            \<and> (\<forall>j. i < j \<and> j < length (xs @ [x]) \<longrightarrow> fst ((xs @ [x]) ! j) \<noteq> k))
        \<longleftrightarrow> (\<exists>i<length xs. xs ! i = (k, v) \<and> (\<forall>j. i < j \<and> j < length xs \<longrightarrow> fst (xs ! j) \<noteq> k))"
    proof
      assume "\<exists>i<length (xs @ [x]). (xs @ [x]) ! i = (k, v)
            \<and> (\<forall>j. i < j \<and> j < length (xs @ [x]) \<longrightarrow> fst ((xs @ [x]) ! j) \<noteq> k)"
      then obtain i where i: "i < length (xs @ [x])" "(xs @ [x]) ! i = (k, v)"
        "\<forall>j. i < j \<and> j < length (xs @ [x]) \<longrightarrow> fst ((xs @ [x]) ! j) \<noteq> k" by blast
      have l: "i < length xs"
      proof (rule ccontr)
        assume "\<not> i < length xs"
        with i(1) have "i = length xs" by simp
        with i(2) False show False by simp
      qed
      have "\<forall>j. i < j \<and> j < length xs \<longrightarrow> fst (xs ! j) \<noteq> k"
      proof (intro allI impI)
        fix j assume j: "i < j \<and> j < length xs"
        with i(3)[rule_format, of j] show "fst (xs ! j) \<noteq> k" by (simp add: nth_append)
      qed
      with l i(2) show "\<exists>i<length xs. xs ! i = (k, v) \<and> (\<forall>j. i < j \<and> j < length xs \<longrightarrow> fst (xs ! j) \<noteq> k)"
        by (intro exI[of _ i]) (simp add: nth_append)
    next
      assume "\<exists>i<length xs. xs ! i = (k, v) \<and> (\<forall>j. i < j \<and> j < length xs \<longrightarrow> fst (xs ! j) \<noteq> k)"
      then obtain i where i: "i < length xs" "xs ! i = (k, v)"
        "\<forall>j. i < j \<and> j < length xs \<longrightarrow> fst (xs ! j) \<noteq> k" by blast
      have "\<forall>j. i < j \<and> j < length (xs @ [x]) \<longrightarrow> fst ((xs @ [x]) ! j) \<noteq> k"
      proof (intro allI impI)
        fix j assume j: "i < j \<and> j < length (xs @ [x])"
        show "fst ((xs @ [x]) ! j) \<noteq> k"
        proof (cases "j < length xs")
          case True
          with i(3) j show ?thesis by (simp add: nth_append)
        next
          case False
          with j have "j = length xs" by simp
          with \<open>fst x \<noteq> k\<close> show ?thesis by simp
        qed
      qed
      with i(1,2) show "\<exists>i<length (xs @ [x]). (xs @ [x]) ! i = (k, v)
            \<and> (\<forall>j. i < j \<and> j < length (xs @ [x]) \<longrightarrow> fst ((xs @ [x]) ! j) \<noteq> k)"
        by (intro exI[of _ i]) (simp add: nth_append)
    qed
    with False snoc.IH show ?thesis by (cases x) auto
  qed
qed

lemma distinct_cell_assign:
  "distinct (map fst ob) \<Longrightarrow> distinct (map fst (cell_assign ob k v))"
  by (simp add: cell_assign_def distinct_update)

lemma distinct_foldl_cell_assign:
  "distinct (map fst ob) \<Longrightarrow> distinct (map fst (foldl (\<lambda>ob (k, v). cell_assign ob k v) ob kvs))"
  by (induction kvs arbitrary: ob) (auto simp: distinct_cell_assign)

lemma has_value_iff:
  assumes "distinct (map fst ob)"
  shows "has_value ob \<longleftrightarrow> (\<exists>k v. map_of ob k = Some v \<and> non_empty v)"
  using assms by (auto simp: has_value_def list_ex_iff)

section \<open>The import of a horizontal sheet\<close>

lemma header_scan:
  "foldl (header_step rows2D) (- 1, 0) [0..<n] = (m, h) \<Longrightarrow>
     (n = 0 \<and> m = - 1 \<and> h = 0)
     \<or> (0 < n \<and> h < n \<and> m = int (score (rows2D ! h))
          \<and> (\<forall>i<n. score (rows2D ! i) \<le> score (rows2D ! h))
          \<and> (\<forall>i<h. score (rows2D ! i) < score (rows2D ! h)))"
proof (induction n arbitrary: m h)
  case 0
  then show ?case by simp
next
  case (Suc n)
  obtain m0 h0 where prev: "foldl (header_step rows2D) (- 1, 0) [0..<n] = (m0, h0)"
    by (cases "foldl (header_step rows2D) (- 1, 0) [0..<n]")
  from Suc.prems have step: "header_step rows2D (m0, h0) n = (m, h)"
    by (simp add: prev)
  from Suc.IH[OF prev] consider
      (first) "n = 0" "m0 = - 1" "h0 = 0"
    | (later) "0 < n" "h0 < n" "m0 = int (score (rows2D ! h0))"
        "\<forall>i<n. score (rows2D ! i) \<le> score (rows2D ! h0)"
        "\<forall>i<h0. score (rows2D ! i) < score (rows2D ! h0)"
    by blast
  then show ?case
  proof cases
    case first
    with step show ?thesis by (auto simp: header_step_def)
  next
    case later
    show ?thesis
    proof (cases "m0 < int (score (rows2D ! n))")
      case True
      with step have mh: "m = int (score (rows2D ! n))" "h = n"
        by (auto simp: header_step_def)
      have "\<forall>i<n. score (rows2D ! i) < score (rows2D ! n)"
        using later True by (metis le_less_trans of_nat_less_iff)
      then show ?thesis using mh by (auto simp: less_Suc_eq)
    next
      case False
      with step have mh: "m = m0" "h = h0" by (auto simp: header_step_def)
      from False later have "score (rows2D ! n) \<le> score (rows2D ! h0)" by simp
      then show ?thesis using mh later by (auto simp: less_Suc_eq)
    qed
  qed
qed

lemma headerRowIndex_earliest_max:
  assumes "rows2D \<noteq> []"
  shows "headerRowIndex rows2D < min 10 (length rows2D)
     \<and> (\<forall>i<min 10 (length rows2D). score (rows2D ! i) \<le> score (rows2D ! headerRowIndex rows2D))
     \<and> (\<forall>i<headerRowIndex rows2D. score (rows2D ! i) < score (rows2D ! headerRowIndex rows2D))"
proof -
  obtain m h where mh: "foldl (header_step rows2D) (- 1, 0) [0..<min 10 (length rows2D)] = (m, h)"
    by (cases "foldl (header_step rows2D) (- 1, 0) [0..<min 10 (length rows2D)]")
  have "0 < min 10 (length rows2D)" using assms by simp
  with header_scan[OF mh] mh show ?thesis by (simp add: headerRowIndex_def)
qed

lemma length_unique: "length (unique xs) = card (set xs)"
  by (simp add: unique_def length_remdups_card_conv)

lemma set_unique [simp]: "set (unique xs) = set xs"
  by (simp add: unique_def)

lemma distinct_unique [simp]: "distinct (unique xs)"
  by (simp add: unique_def)

lemma isVertical_iff:
  "isVertical rows2D =
     (3 < card {c. non_empty c \<and> (\<exists>r\<in>set rows2D. c = cell_at r 0)}
      \<and> (\<forall>r\<in>set rows2D. \<forall>c\<in>set (drop 2 r). \<not> non_empty c))"
proof -
  have "set (filter non_empty (map (\<lambda>r. cell_at r 0) rows2D))
      = {c. non_empty c \<and> (\<exists>r\<in>set rows2D. c = cell_at r 0)}"
    by auto
  then show ?thesis
    by (auto simp: isVertical_def Let_def length_unique list_all_iff non_empty_def)
qed

lemma collect_all_Inr:
  "(\<forall>x\<in>set xs. f x = Inr (g x)) \<Longrightarrow> collect (map f xs) = Inr (map g xs)"
  by (induction xs) auto

lemma collect_Inl:
  "x \<in> set xs \<Longrightarrow> f x = Inl e \<Longrightarrow> \<exists>e'. collect (map f xs) = Inl e'"
proof (induction xs)
  case Nil
  then show ?case by simp
next
  case (Cons y ys)
  show ?case
  proof (cases "f y")
    case (Inl a)
    then show ?thesis by simp
  next
    case (Inr b)
    with Cons show ?thesis by (auto split: sum.splits)
  qed
qed

lemma normalize_Nil [simp]: "normalize [] = []"
  by (simp add: normalize_def trim_def toLowerCase_def)

lemma normalizeKey_text: "text_or_empty c \<Longrightarrow> normalizeKey c = Inr (header_key c)"
  by (cases c) (auto simp: normalizeKey_def header_key_def text_or_empty_def)

lemma normalizeKey_throws: "\<not> text_or_empty c \<Longrightarrow> normalizeKey c = Inl TypeError"
  by (cases c) (auto simp: normalizeKey_def text_or_empty_def)

lemma foldl_cell_assign:
  "map_of (foldl (\<lambda>ob (k, v). cell_assign ob k v) ob kvs) k =
     (if k = ''__proto__'' then map_of ob k
      else (case map_of (rev kvs) k of Some v \<Rightarrow> Some v | None \<Rightarrow> map_of ob k))"
proof (induction kvs arbitrary: ob)
  case Nil
  show ?case by simp
next
  case (Cons kv kvs)
  obtain k1 v1 where kv: "kv = (k1, v1)" by (cases kv)
  have a: "map_of (cell_assign ob k1 v1) k
      = (if k1 = ''__proto__'' then map_of ob k else ((map_of ob)(k1 \<mapsto> v1)) k)"
    by (simp add: cell_assign_def update_conv')
  have "foldl (\<lambda>ob (k, v). cell_assign ob k v) ob (kv # kvs)
      = foldl (\<lambda>ob (k, v). cell_assign ob k v) (cell_assign ob k1 v1) kvs"
    by (simp add: kv)
  then show ?case
    unfolding kv by (simp only: Cons.IH a) (auto simp: map_add_def split: option.splits)
qed

lemma map_of_rev_last:
  "i < length kvs \<Longrightarrow> (\<forall>j. i < j \<and> j < length kvs \<longrightarrow> fst (kvs ! j) \<noteq> fst (kvs ! i))
     \<Longrightarrow> map_of (rev kvs) (fst (kvs ! i)) = Some (snd (kvs ! i))"
proof (induction kvs rule: rev_induct)
  case Nil
  then show ?case by simp
next
  case (snoc x xs)
  show ?case
  proof (cases "i = length xs")
    case True
    then show ?thesis by (cases x) simp
  next
    case False
    with snoc.prems have i: "i < length xs" by simp
    from snoc.prems(2)[rule_format, of "length xs"] i have ne: "fst x \<noteq> fst (xs ! i)"
      by (simp add: nth_append)
    have "\<forall>j. i < j \<and> j < length xs \<longrightarrow> fst (xs ! j) \<noteq> fst (xs ! i)"
      using snoc.prems(2) i by (auto simp: nth_append split: if_splits)
    from snoc.IH[OF i this] ne i show ?thesis
      by (cases x) (auto simp: nth_append)
  qed
qed

lemma horizontal_pairs:
  "foldl (\<lambda>ob (i, header). cell_assign ob header (or_empty (cell_at r i))) ob (List.enumerate n hs)
     = foldl (\<lambda>ob (k, v). cell_assign ob k v) ob
         (map (\<lambda>(i, h). (h, or_empty (cell_at r i))) (List.enumerate n hs))"
  by (induction hs arbitrary: ob n) auto

lemma has_valueI: "map_of ob k = Some v \<Longrightarrow> non_empty v \<Longrightarrow> has_value ob"
  by (auto simp: has_value_def list_ex_iff dest!: map_of_SomeD)

lemma map_of_cell_assign_rowIndex:
  "map_of (cell_assign ob ''_rowIndex'' v) k = (if k = ''_rowIndex'' then Some v else map_of ob k)"
  by (simp add: cell_assign_def update_conv')

lemma horizontal_row_lookup:
  "map_of (horizontal_row hs idx r) k =
     (if k = ''_rowIndex'' then Some (Num (int idx))
      else if k = ''__proto__'' then None
      else map_of (rev (map (\<lambda>(i, h). (h, or_empty (cell_at r i))) (List.enumerate 0 hs))) k)"
  by (auto simp: horizontal_row_def Let_def map_of_cell_assign_rowIndex horizontal_pairs
      foldl_cell_assign split: option.splits)

lemma horizontal_row_keys:
  "fst ` set (horizontal_row hs idx r) = (set hs - {''__proto__''}) \<union> {''_rowIndex''}"
proof -
  have "dom (map_of (horizontal_row hs idx r)) = (set hs - {''__proto__''}) \<union> {''_rowIndex''}"
  proof -
    have d: "dom (map_of (rev (map (\<lambda>(i, h). (h, or_empty (cell_at r i))) (List.enumerate 0 hs)))) = set hs"
      by (force simp: dom_map_of_conv_image_fst enumerate_eq_zip in_set_zip image_iff in_set_conv_nth)
    show ?thesis
      unfolding dom_def horizontal_row_lookup using d[unfolded dom_def] by auto
  qed
  then show ?thesis by (simp add: dom_map_of_conv_image_fst)
qed

lemma horizontal_row_value:
  assumes "i < length hs" "hs ! i \<noteq> ''__proto__''" "hs ! i \<noteq> ''_rowIndex''"
    "\<forall>j. i < j \<and> j < length hs \<longrightarrow> hs ! j \<noteq> hs ! i"
  shows "map_of (horizontal_row hs idx r) (hs ! i) = Some (or_empty (cell_at r i))"
proof -
  let ?kvs = "map (\<lambda>(i, h). (h, or_empty (cell_at r i))) (List.enumerate 0 hs)"
  have len: "length ?kvs = length hs" by simp
  have nth: "\<And>j. j < length hs \<Longrightarrow> ?kvs ! j = (hs ! j, or_empty (cell_at r j))"
    by (simp add: nth_enumerate_eq)
  have "map_of (rev ?kvs) (fst (?kvs ! i)) = Some (snd (?kvs ! i))"
    by (rule map_of_rev_last) (use assms nth in \<open>auto simp: len\<close>)
  then show ?thesis using assms nth[of i] by (simp add: horizontal_row_lookup)
qed

lemma non_empty_or_empty: "non_empty c \<Longrightarrow> or_empty c = c"
  by (cases c) (auto simp: non_empty_def)

lemma import_horizontal_result:
  assumes "\<forall>c\<in>set (rows2D ! headerRowIndex rows2D). text_or_empty c"
  shows "import_horizontal rows2D =
     Inr (map (\<lambda>k. imported_column k (capitalize k)) (map header_key (rows2D ! headerRowIndex rows2D)),
          map to_row (filter has_value
            (map (\<lambda>(idx, r). horizontal_row (map header_key (rows2D ! headerRowIndex rows2D)) idx r)
               (List.enumerate 0 (dataRows_of rows2D)))))"
proof -
  have "collect (map normalizeKey (rows2D ! headerRowIndex rows2D))
      = Inr (map header_key (rows2D ! headerRowIndex rows2D))"
    by (rule collect_all_Inr) (use assms normalizeKey_text in auto)
  then show ?thesis by (simp add: import_horizontal_def Let_def)
qed

lemma col_key_imported [simp]: "col_key (imported_column k n) = k"
  by (simp add: imported_column_def)

lemma distinct_horizontal_row: "distinct (map fst (horizontal_row hs idx r))"
  by (simp add: horizontal_row_def Let_def horizontal_pairs distinct_cell_assign
      distinct_foldl_cell_assign)

lemma horizontal_has_value:
  "has_value (horizontal_row hs idx r) \<longleftrightarrow>
     idx \<noteq> 0
     \<or> (\<exists>i<length hs. hs ! i \<noteq> ''__proto__'' \<and> hs ! i \<noteq> ''_rowIndex''
           \<and> (\<forall>j. i < j \<and> j < length hs \<longrightarrow> hs ! j \<noteq> hs ! i) \<and> non_empty (cell_at r i))"
proof -
  let ?kvs = "map (\<lambda>(i, h). (h, or_empty (cell_at r i))) (List.enumerate 0 hs)"
  let ?R = "\<exists>i<length hs. hs ! i \<noteq> ''__proto__'' \<and> hs ! i \<noteq> ''_rowIndex''
           \<and> (\<forall>j. i < j \<and> j < length hs \<longrightarrow> hs ! j \<noteq> hs ! i) \<and> non_empty (cell_at r i)"
  have nth: "\<And>j. j < length hs \<Longrightarrow> ?kvs ! j = (hs ! j, or_empty (cell_at r j))"
    by (simp add: nth_enumerate_eq)
  have v: "has_value (horizontal_row hs idx r)
      \<longleftrightarrow> (\<exists>k v. map_of (horizontal_row hs idx r) k = Some v \<and> non_empty v)"
    by (rule has_value_iff[OF distinct_horizontal_row])
  show ?thesis
  proof
    assume "has_value (horizontal_row hs idx r)"
    with v obtain k w where kw: "map_of (horizontal_row hs idx r) k = Some w" "non_empty w" by blast
    show "idx \<noteq> 0 \<or> ?R"
    proof (cases "k = ''_rowIndex''")
      case True
      with kw have "non_empty (Num (int idx))" by (simp add: horizontal_row_lookup)
      then show ?thesis by (simp add: non_empty_Num_iff)
    next
      case False
      with kw(1) have p: "k \<noteq> ''__proto__''" and m: "map_of (rev ?kvs) k = Some w"
        by (auto simp: horizontal_row_lookup split: if_splits)
      from m obtain i where i: "i < length ?kvs" "?kvs ! i = (k, w)"
        "\<forall>j. i < j \<and> j < length ?kvs \<longrightarrow> fst (?kvs ! j) \<noteq> k"
        unfolding map_of_rev_Some_iff by blast
      have l: "i < length hs" using i(1) by simp
      have e: "hs ! i = k" "w = or_empty (cell_at r i)" using i(2) nth[OF l] by auto
      have "\<forall>j. i < j \<and> j < length hs \<longrightarrow> hs ! j \<noteq> hs ! i"
      proof (intro allI impI)
        fix j assume j: "i < j \<and> j < length hs"
        then have "fst (?kvs ! j) \<noteq> k" using i(3) by simp
        with j nth[of j] e(1) show "hs ! j \<noteq> hs ! i" by simp
      qed
      moreover have "non_empty (cell_at r i)"
        using kw(2) e(2) by (simp add: non_empty_or_empty_iff)
      ultimately have ?R using l e(1) p False by blast
      then show ?thesis ..
    qed
  next
    assume "idx \<noteq> 0 \<or> ?R"
    then show "has_value (horizontal_row hs idx r)"
    proof
      assume "idx \<noteq> 0"
      then have "non_empty (Num (int idx))" by (simp add: non_empty_Num_iff)
      moreover have "map_of (horizontal_row hs idx r) ''_rowIndex'' = Some (Num (int idx))"
        by (simp add: horizontal_row_lookup)
      ultimately show ?thesis using v by blast
    next
      assume ?R
      then obtain i where i: "i < length hs" "hs ! i \<noteq> ''__proto__''" "hs ! i \<noteq> ''_rowIndex''"
        "\<forall>j. i < j \<and> j < length hs \<longrightarrow> hs ! j \<noteq> hs ! i" "non_empty (cell_at r i)" by blast
      have "map_of (horizontal_row hs idx r) (hs ! i) = Some (or_empty (cell_at r i))"
        using i(1-4) by (rule horizontal_row_value)
      moreover have "non_empty (or_empty (cell_at r i))"
        using i(5) by (simp add: non_empty_or_empty_iff)
      ultimately show ?thesis using v by blast
    qed
  qed
qed

lemma lower_char_not_I: "lower_char c \<noteq> CHR ''I''"
proof -
  have "(of_char (lower_char c) :: nat) \<noteq> 73"
    by (auto simp: lower_char_def Let_def)
  then show ?thesis by auto
qed

lemma set_replace_ws: "set (replace_ws s) \<subseteq> insert (CHR ''_'') (set s)"
proof (induction s rule: replace_ws.induct)
  case 1
  show ?case by simp
next
  case (2 c cs)
  have "set (dropWhile is_ws cs) \<subseteq> set cs" by (rule set_dropWhileD[THEN subsetI])
  with 2 show ?case by auto
qed

lemma normalize_not_rowIndex: "normalize s \<noteq> ''_rowIndex''"
proof
  assume e: "normalize s = ''_rowIndex''"
  have "CHR ''I'' \<in> set (normalize s)" unfolding e by simp
  then have "CHR ''I'' \<in> insert (CHR ''_'') (set (toLowerCase (trim s)))"
    using set_replace_ws unfolding normalize_def by blast
  then have "CHR ''I'' \<in> lower_char ` set (trim s)" by (simp add: toLowerCase_def)
  then show False using lower_char_not_I by force
qed

lemma header_key_not_rowIndex: "header_key c \<noteq> ''_rowIndex''"
  using normalize_not_rowIndex by (cases c) (auto simp: header_key_def)

text \<open>
  Claim C2, as amended. For a sheet with rows, the header row is the earliest of the first
  ten rows (of all rows when there are fewer) whose number of distinct non-empty values is
  greatest. When the sheet is not read as vertical and every header cell is text or
  empty, the column keys are the normalized header values, and every later row with a
  non-empty cell gives an object. Its keys are the header keys other than
  \<^verbatim>\<open>__proto__\<close> (an assignment to that name is ignored) and \<^verbatim>\<open>_rowIndex\<close>, which
  holds the position of the row among these rows and is never a normalized key; a
  header key other than these two holds the row's cell of the last column with that key
  (the empty string for a missing cell), and cells beyond the header are not read. The
  objects that hold a non-empty value are the data rows, in order: these are the objects
  of all rows but the first (their \<^verbatim>\<open>_rowIndex\<close> is a non-zero number), and the object
  of the first row exactly when the row has a non-empty cell in a column whose key is not
  \<^verbatim>\<open>__proto__\<close> and is not repeated in a later column.
\<close>

theorem horizontal_import:
  "(rows2D \<noteq> [] \<longrightarrow>
      headerRowIndex rows2D < min 10 (length rows2D)
      \<and> (\<forall>i<min 10 (length rows2D). score (rows2D ! i) \<le> score (rows2D ! headerRowIndex rows2D))
      \<and> (\<forall>i<headerRowIndex rows2D. score (rows2D ! i) < score (rows2D ! headerRowIndex rows2D)))
   \<and> dataRows_of rows2D = filter (list_ex non_empty) (drop (headerRowIndex rows2D + 1) rows2D)
   \<and> (rows2D \<noteq> [] \<and> \<not> isVertical rows2D
        \<and> (\<forall>c\<in>set (rows2D ! headerRowIndex rows2D). text_or_empty c) \<longrightarrow>
      (\<exists>cols rs. parse_sheet rows2D = Inr (Some (cols, rs))
         \<and> map col_key cols = map header_key (rows2D ! headerRowIndex rows2D)
         \<and> rs = map to_row (filter has_value
                  (map (\<lambda>(idx, r). horizontal_row (map col_key cols) idx r)
                     (List.enumerate 0 (dataRows_of rows2D))))))
   \<and> fst ` set (horizontal_row hs idx r) = (set hs - {''__proto__''}) \<union> {''_rowIndex''}
   \<and> map_of (horizontal_row hs idx r) ''_rowIndex'' = Some (Num (int idx))
   \<and> (\<forall>i<length hs. hs ! i \<noteq> ''__proto__'' \<and> hs ! i \<noteq> ''_rowIndex''
          \<and> (\<forall>j. i < j \<and> j < length hs \<longrightarrow> hs ! j \<noteq> hs ! i)
        \<longrightarrow> map_of (horizontal_row hs idx r) (hs ! i) = Some (or_empty (cell_at r i))
            \<and> (non_empty (cell_at r i) \<longrightarrow> has_value (horizontal_row hs idx r)))
   \<and> (has_value (horizontal_row hs idx r) \<longleftrightarrow>
        idx \<noteq> 0
        \<or> (\<exists>i<length hs. hs ! i \<noteq> ''__proto__'' \<and> hs ! i \<noteq> ''_rowIndex''
              \<and> (\<forall>j. i < j \<and> j < length hs \<longrightarrow> hs ! j \<noteq> hs ! i) \<and> non_empty (cell_at r i)))
   \<and> ''_rowIndex'' \<notin> set (map header_key cells)"
proof (intro conjI)
  show "rows2D \<noteq> [] \<longrightarrow>
      headerRowIndex rows2D < min 10 (length rows2D)
      \<and> (\<forall>i<min 10 (length rows2D). score (rows2D ! i) \<le> score (rows2D ! headerRowIndex rows2D))
      \<and> (\<forall>i<headerRowIndex rows2D. score (rows2D ! i) < score (rows2D ! headerRowIndex rows2D))"
    using headerRowIndex_earliest_max by blast
next
  show "dataRows_of rows2D = filter (list_ex non_empty) (drop (headerRowIndex rows2D + 1) rows2D)"
    by (simp add: dataRows_of_def)
next
  show "rows2D \<noteq> [] \<and> \<not> isVertical rows2D
        \<and> (\<forall>c\<in>set (rows2D ! headerRowIndex rows2D). text_or_empty c) \<longrightarrow>
      (\<exists>cols rs. parse_sheet rows2D = Inr (Some (cols, rs))
         \<and> map col_key cols = map header_key (rows2D ! headerRowIndex rows2D)
         \<and> rs = map to_row (filter has_value
                  (map (\<lambda>(idx, r). horizontal_row (map col_key cols) idx r)
                     (List.enumerate 0 (dataRows_of rows2D)))))"
  proof
    assume a: "rows2D \<noteq> [] \<and> \<not> isVertical rows2D
        \<and> (\<forall>c\<in>set (rows2D ! headerRowIndex rows2D). text_or_empty c)"
    let ?hs = "map header_key (rows2D ! headerRowIndex rows2D)"
    let ?cols = "map (\<lambda>k. imported_column k (capitalize k)) ?hs"
    let ?rs = "map to_row (filter has_value
            (map (\<lambda>(idx, r). horizontal_row ?hs idx r) (List.enumerate 0 (dataRows_of rows2D))))"
    have keys: "map col_key ?cols = ?hs" by (simp add: comp_def)
    have "parse_sheet rows2D = Inr (Some (?cols, ?rs))"
      using a import_horizontal_result[of rows2D] by (simp add: parse_sheet_def)
    then show "\<exists>cols rs. parse_sheet rows2D = Inr (Some (cols, rs))
         \<and> map col_key cols = map header_key (rows2D ! headerRowIndex rows2D)
         \<and> rs = map to_row (filter has_value
                  (map (\<lambda>(idx, r). horizontal_row (map col_key cols) idx r)
                     (List.enumerate 0 (dataRows_of rows2D))))"
      using keys by (intro exI[of _ ?cols] exI[of _ ?rs]) (simp only: simp_thms)
  qed
next
  show "fst ` set (horizontal_row hs idx r) = (set hs - {''__proto__''}) \<union> {''_rowIndex''}"
    by (rule horizontal_row_keys)
next
  show "map_of (horizontal_row hs idx r) ''_rowIndex'' = Some (Num (int idx))"
    by (simp add: horizontal_row_lookup)
next
  show "\<forall>i<length hs. hs ! i \<noteq> ''__proto__'' \<and> hs ! i \<noteq> ''_rowIndex''
          \<and> (\<forall>j. i < j \<and> j < length hs \<longrightarrow> hs ! j \<noteq> hs ! i)
        \<longrightarrow> map_of (horizontal_row hs idx r) (hs ! i) = Some (or_empty (cell_at r i))
            \<and> (non_empty (cell_at r i) \<longrightarrow> has_value (horizontal_row hs idx r))"
  proof (intro allI impI)
    fix i
    assume b: "i < length hs" "hs ! i \<noteq> ''__proto__'' \<and> hs ! i \<noteq> ''_rowIndex''
          \<and> (\<forall>j. i < j \<and> j < length hs \<longrightarrow> hs ! j \<noteq> hs ! i)"
    then have v: "map_of (horizontal_row hs idx r) (hs ! i) = Some (or_empty (cell_at r i))"
      using horizontal_row_value[of i hs idx r] by blast
    moreover have "non_empty (cell_at r i) \<longrightarrow> has_value (horizontal_row hs idx r)"
      using v has_valueI non_empty_or_empty by metis
    ultimately show "map_of (horizontal_row hs idx r) (hs ! i) = Some (or_empty (cell_at r i))
            \<and> (non_empty (cell_at r i) \<longrightarrow> has_value (horizontal_row hs idx r))"
      by blast
  qed
next
  show "has_value (horizontal_row hs idx r) \<longleftrightarrow>
        idx \<noteq> 0
        \<or> (\<exists>i<length hs. hs ! i \<noteq> ''__proto__'' \<and> hs ! i \<noteq> ''_rowIndex''
              \<and> (\<forall>j. i < j \<and> j < length hs \<longrightarrow> hs ! j \<noteq> hs ! i) \<and> non_empty (cell_at r i))"
    by (rule horizontal_has_value)
next
  show "''_rowIndex'' \<notin> set (map header_key cells)"
    using header_key_not_rowIndex by (metis imageE list.set_map)
qed

lemma price_sheet_facts:
  "headerRowIndex price_sheet = 0"
  "isVertical price_sheet = False"
  "dataRows_of price_sheet = [[Str ''Acme'', Num 3], [Str ''Bolt'', Num 0]]"
  "map header_key (price_sheet ! 0) = [''name'', ''unit_price'']"
  "filter has_value (map (\<lambda>(idx, r). horizontal_row [''name'', ''unit_price''] idx r)
       (List.enumerate 0 [[Str ''Acme'', Num 3], [Str ''Bolt'', Num 0]]))
     = [[(''name'', Str ''Acme''), (''unit_price'', Num 3), (''_rowIndex'', Num 0)],
        [(''name'', Str ''Bolt''), (''unit_price'', Num 0), (''_rowIndex'', Num 1)]]"
  by code_simp+

text \<open>
  The theorem on a sheet with a header row, two rows of data and a blank row between
  them.
\<close>

theorem horizontal_import_witness:
  "price_sheet \<noteq> [] \<and> isVertical price_sheet = False \<and> headerRowIndex price_sheet = 0
   \<and> (\<exists>cols rs. parse_sheet price_sheet = Inr (Some (cols, rs))
        \<and> map col_key cols = [''name'', ''unit_price'']
        \<and> rs = [[(''name'', Prim (Str ''Acme'')), (''unit_price'', Prim (Num 3)), (''_rowIndex'', Prim (Num 0))],
                 [(''name'', Prim (Str ''Bolt'')), (''unit_price'', Prim (Num 0)), (''_rowIndex'', Prim (Num 1))]])"
proof -
  have ne: "price_sheet \<noteq> []" by (simp add: price_sheet_def)
  have cells: "\<forall>c\<in>set (price_sheet ! headerRowIndex price_sheet). text_or_empty c"
    unfolding price_sheet_facts by (simp add: price_sheet_def text_or_empty_def)
  have h: "price_sheet \<noteq> [] \<and> \<not> isVertical price_sheet
      \<and> (\<forall>c\<in>set (price_sheet ! headerRowIndex price_sheet). text_or_empty c)"
    using ne cells by (simp add: price_sheet_facts)
  note t = horizontal_import[of price_sheet, THEN conjunct2, THEN conjunct2, THEN conjunct1, THEN mp, OF h]
  from t obtain cols rs where r: "parse_sheet price_sheet = Inr (Some (cols, rs))"
    "map col_key cols = map header_key (price_sheet ! headerRowIndex price_sheet)"
    "rs = map to_row (filter has_value
                  (map (\<lambda>(idx, r). horizontal_row (map col_key cols) idx r)
                     (List.enumerate 0 (dataRows_of price_sheet))))"
    by (elim exE conjE) (rule that; assumption)
  have k: "map col_key cols = [''name'', ''unit_price'']"
    using r(2) by (simp add: price_sheet_facts)
  have "rs = [[(''name'', Prim (Str ''Acme'')), (''unit_price'', Prim (Num 3)), (''_rowIndex'', Prim (Num 0))],
                 [(''name'', Prim (Str ''Bolt'')), (''unit_price'', Prim (Num 0)), (''_rowIndex'', Prim (Num 1))]]"
    unfolding r(3) k price_sheet_facts by (simp add: to_row_def)
  with r(1) k ne show ?thesis by (simp add: price_sheet_facts)
qed

text \<open>
  Claim C2 as stated fails on a sheet whose header repeats a key: the one later row has a
  non-empty cell, under the first of the two columns keyed \<^verbatim>\<open>y\<close>, and the import
  yields no data row. It fails also on a sheet with a header cell \<^verbatim>\<open>__proto__\<close>: the one
  later row has a non-empty cell in that column, and the import yields no data row.
\<close>

theorem horizontal_import_counterexample:
  "map_sum id (map_option snd) (parse_sheet repeated_header_sheet) = Inr (Some [])
   \<and> dataRows_of repeated_header_sheet = [[Str [], Str ''v'', Str []]]
   \<and> isVertical repeated_header_sheet = False
   \<and> map_sum id (map_option snd) (parse_sheet proto_header_sheet) = Inr (Some [])
   \<and> dataRows_of proto_header_sheet = [[Str ''v'', Str []]]
   \<and> isVertical proto_header_sheet = False"
  by code_simp

section \<open>The import of a vertical sheet\<close>

lemma block_step_cases:
  "block_step (blocks, cur, seen) r =
     (if \<not> truthy (cell_at r 0) then ((if cur \<noteq> [] then blocks @ [cur] else blocks), [], [])
      else if cell_at r 0 \<in> set seen then ((if cur \<noteq> [] then blocks @ [cur] else blocks), [r], [cell_at r 0])
      else (blocks, cur @ [r], seen @ [cell_at r 0]))"
  by (simp add: block_step_def Let_def)

lemma blocks_invariant:
  assumes "foldl block_step (blocks, cur, seen) rs = (blocks', cur', seen')"
    and "seen = map (\<lambda>r. cell_at r 0) cur"
    and "\<forall>b\<in>set blocks. b \<noteq> [] \<and> distinct (map (\<lambda>r. cell_at r 0) b)"
    and "distinct (map (\<lambda>r. cell_at r 0) cur)"
  shows "seen' = map (\<lambda>r. cell_at r 0) cur'
     \<and> concat blocks' @ cur' = concat blocks @ cur @ filter (\<lambda>r. truthy (cell_at r 0)) rs
     \<and> (\<forall>b\<in>set blocks'. b \<noteq> [] \<and> distinct (map (\<lambda>r. cell_at r 0) b))
     \<and> distinct (map (\<lambda>r. cell_at r 0) cur')"
  using assms
proof (induction rs arbitrary: blocks cur seen)
  case Nil
  then show ?case by auto
next
  case (Cons r rs)
  let ?k = "cell_at r 0"
  consider (empty) "\<not> truthy ?k" | (repeated) "truthy ?k" "?k \<in> set seen"
    | (fresh) "truthy ?k" "?k \<notin> set seen" by blast
  then show ?case
  proof cases
    case empty
    define b where "b = (if cur \<noteq> [] then blocks @ [cur] else blocks)"
    from Cons.prems(1) empty have f: "foldl block_step (b, [], []) rs = (blocks', cur', seen')"
      by (simp add: block_step_cases b_def)
    have c: "concat b = concat blocks @ cur" by (simp add: b_def)
    have p: "\<forall>x\<in>set b. x \<noteq> [] \<and> distinct (map (\<lambda>r. cell_at r 0) x)"
      using Cons.prems(3,4) by (auto simp: b_def)
    have "seen' = map (\<lambda>r. cell_at r 0) cur'
       \<and> concat blocks' @ cur' = concat b @ [] @ filter (\<lambda>r. truthy (cell_at r 0)) rs
       \<and> (\<forall>x\<in>set blocks'. x \<noteq> [] \<and> distinct (map (\<lambda>r. cell_at r 0) x))
       \<and> distinct (map (\<lambda>r. cell_at r 0) cur')"
      by (rule Cons.IH[OF f _ p]) simp_all
    then show ?thesis using empty by (simp add: c)
  next
    case repeated
    define b where "b = (if cur \<noteq> [] then blocks @ [cur] else blocks)"
    from Cons.prems(1) repeated have f: "foldl block_step (b, [r], [?k]) rs = (blocks', cur', seen')"
      by (simp add: block_step_cases b_def)
    have c: "concat b = concat blocks @ cur" by (simp add: b_def)
    have p: "\<forall>x\<in>set b. x \<noteq> [] \<and> distinct (map (\<lambda>r. cell_at r 0) x)"
      using Cons.prems(3,4) by (auto simp: b_def)
    have "seen' = map (\<lambda>r. cell_at r 0) cur'
       \<and> concat blocks' @ cur' = concat b @ [r] @ filter (\<lambda>r. truthy (cell_at r 0)) rs
       \<and> (\<forall>x\<in>set blocks'. x \<noteq> [] \<and> distinct (map (\<lambda>r. cell_at r 0) x))
       \<and> distinct (map (\<lambda>r. cell_at r 0) cur')"
      by (rule Cons.IH[OF f _ p]) simp_all
    then show ?thesis using repeated by (simp add: c)
  next
    case fresh
    from Cons.prems(1) fresh have f: "foldl block_step (blocks, cur @ [r], seen @ [?k]) rs = (blocks', cur', seen')"
      by (simp add: block_step_cases)
    have d: "distinct (map (\<lambda>r. cell_at r 0) (cur @ [r]))"
      using Cons.prems(2,4) fresh by auto
    have "seen' = map (\<lambda>r. cell_at r 0) cur'
       \<and> concat blocks' @ cur' = concat blocks @ (cur @ [r]) @ filter (\<lambda>r. truthy (cell_at r 0)) rs
       \<and> (\<forall>x\<in>set blocks'. x \<noteq> [] \<and> distinct (map (\<lambda>r. cell_at r 0) x))
       \<and> distinct (map (\<lambda>r. cell_at r 0) cur')"
      by (rule Cons.IH[OF f _ Cons.prems(3) d]) (simp add: Cons.prems(2))
    then show ?thesis using fresh by simp
  qed
qed

lemma blocks_of_partition:
  "concat (blocks_of rows2D) = filter (\<lambda>r. truthy (cell_at r 0)) rows2D
   \<and> (\<forall>b\<in>set (blocks_of rows2D). b \<noteq> [] \<and> distinct (map (\<lambda>r. cell_at r 0) b))"
proof -
  obtain blocks cur seen where f: "foldl block_step ([], [], []) rows2D = (blocks, cur, seen)"
    by (cases "foldl block_step ([], [], []) rows2D") auto
  from blocks_invariant[OF f] have i: "concat blocks @ cur = filter (\<lambda>r. truthy (cell_at r 0)) rows2D"
    "\<forall>b\<in>set blocks. b \<noteq> [] \<and> distinct (map (\<lambda>r. cell_at r 0) b)"
    "distinct (map (\<lambda>r. cell_at r 0) cur)"
    by simp_all
  show ?thesis using i by (auto simp: blocks_of_def f)
qed

lemma set_allKeys:
  "set (allKeys_of (blocks_of rows2D)) = {k. truthy k \<and> (\<exists>r\<in>set rows2D. k = cell_at r 0)}"
proof -
  have "concat (map (map (\<lambda>r. cell_at r 0)) (blocks_of rows2D))
      = map (\<lambda>r. cell_at r 0) (concat (blocks_of rows2D))"
    by (simp add: map_concat)
  then show ?thesis
    using blocks_of_partition[of rows2D] by (auto simp: allKeys_of_def)
qed

lemma vertical_column_text:
  "truthy k \<Longrightarrow> text_or_empty k
     \<Longrightarrow> vertical_column k i = Inr (imported_column (js_String k) (capitalize (js_String k)))"
  by (cases k) (auto simp: vertical_column_def text_or_empty_def)

lemma vertical_column_throws:
  "\<not> text_or_empty k \<Longrightarrow> vertical_column k i = Inl TypeError"
  by (cases k) (auto simp: vertical_column_def text_or_empty_def)

lemma collect_enumerate:
  "(\<forall>k\<in>set ks. \<forall>i. f i k = Inr (g k))
     \<Longrightarrow> collect (map (\<lambda>(i, k). f i k) (List.enumerate n ks)) = Inr (map g ks)"
  by (induction ks arbitrary: n) auto

lemma import_vertical_result:
  assumes "\<forall>r\<in>set rows2D. text_or_empty (cell_at r 0)"
  shows "import_vertical rows2D =
     Inr (map (\<lambda>k. imported_column (js_String k) (capitalize (js_String k))) (allKeys_of (blocks_of rows2D)),
          map to_row (filter has_value
            (map (\<lambda>(idx, b). vertical_row (allKeys_of (blocks_of rows2D)) idx b)
               (List.enumerate 0 (blocks_of rows2D)))))"
proof -
  let ?ks = "allKeys_of (blocks_of rows2D)"
  have "\<forall>k\<in>set ?ks. \<forall>i. vertical_column k i
      = Inr (imported_column (js_String k) (capitalize (js_String k)))"
    using assms by (auto simp: set_allKeys vertical_column_text)
  then have "collect (map (\<lambda>(i, k). vertical_column k i) (List.enumerate 0 ?ks))
      = Inr (map (\<lambda>k. imported_column (js_String k) (capitalize (js_String k))) ?ks)"
    by (rule collect_enumerate)
  then show ?thesis by (simp add: import_vertical_def Let_def)
qed

lemma vertical_pairs:
  "foldl (\<lambda>ob r. cell_assign ob (js_String (cell_at r 0)) (or_empty (cell_at r 1))) ob b
     = foldl (\<lambda>ob (k, v). cell_assign ob k v) ob
         (map (\<lambda>r. (js_String (cell_at r 0), or_empty (cell_at r 1))) b)"
  by (induction b arbitrary: ob) auto

lemma fill_missing:
  "map_of (foldl (\<lambda>ob k. if \<not> obj_in (js_String k) ob then cell_assign ob (js_String k) (Str []) else ob) ob ks) k' =
     (if k' \<in> fst ` set ob then map_of ob k'
      else if k' \<in> js_String ` set ks \<and> k' \<notin> set object_prototype_keys then Some (Str []) else None)"
proof (induction ks arbitrary: ob)
  case Nil
  show ?case by (auto simp: map_of_eq_None_iff)
next
  case (Cons k ks)
  define ob' where "ob' = (if \<not> obj_in (js_String k) ob then cell_assign ob (js_String k) (Str []) else ob)"
  have step: "foldl (\<lambda>ob k. if \<not> obj_in (js_String k) ob then cell_assign ob (js_String k) (Str []) else ob) ob (k # ks)
      = foldl (\<lambda>ob k. if \<not> obj_in (js_String k) ob then cell_assign ob (js_String k) (Str []) else ob) ob' ks"
    by (simp add: ob'_def)
  have keys: "fst ` set ob' = (if \<not> obj_in (js_String k) ob then insert (js_String k) (fst ` set ob) else fst ` set ob)"
    using proto_in_keys
    by (auto simp: ob'_def cell_assign_def obj_in_def dom_map_of_conv_image_fst[symmetric] update_conv'
        simp del: fun_upd_apply)
  have look: "map_of ob' k' = (if \<not> obj_in (js_String k) ob \<and> k' = js_String k then Some (Str []) else map_of ob k')"
    using proto_in_keys
    by (auto simp: ob'_def cell_assign_def obj_in_def update_conv')
  show ?case
    unfolding step Cons.IH keys look
    by (auto simp: obj_in_def map_of_eq_None_iff)
qed

lemma vertical_row_lookup:
  "map_of (vertical_row ks idx b) k =
     (if k = ''_rowIndex'' then Some (Num (int idx))
      else if k \<noteq> ''__proto__'' \<and> k \<in> (\<lambda>r. js_String (cell_at r 0)) ` set b
           then map_of (rev (map (\<lambda>r. (js_String (cell_at r 0), or_empty (cell_at r 1))) b)) k
      else if k \<in> js_String ` set ks \<and> k \<notin> set object_prototype_keys then Some (Str []) else None)"
proof -
  let ?kvs = "map (\<lambda>r. (js_String (cell_at r 0), or_empty (cell_at r 1))) b"
  let ?ob1 = "foldl (\<lambda>ob (k, v). cell_assign ob k v) [] ?kvs"
  have l1: "\<And>k. map_of ?ob1 k = (if k = ''__proto__'' then None else map_of (rev ?kvs) k)"
    by (simp add: foldl_cell_assign split: option.splits)
  have "dom (map_of ?ob1) = {k. k \<noteq> ''__proto__'' \<and> k \<in> (\<lambda>r. js_String (cell_at r 0)) ` set b}"
  proof -
    have "dom (map_of (rev ?kvs)) = (\<lambda>r. js_String (cell_at r 0)) ` set b"
      by (force simp: dom_map_of_conv_image_fst)
    then show ?thesis unfolding dom_def l1 by auto
  qed
  then have k1: "fst ` set ?ob1 = {k. k \<noteq> ''__proto__'' \<and> k \<in> (\<lambda>r. js_String (cell_at r 0)) ` set b}"
    by (simp add: dom_map_of_conv_image_fst)
  show ?thesis
    unfolding vertical_row_def Let_def map_of_cell_assign_rowIndex vertical_pairs fill_missing k1 l1
    by auto
qed

lemma vertical_row_field:
  assumes "r \<in> set b" "cell_at r 0 = Str f" "f \<noteq> ''__proto__''" "f \<noteq> ''_rowIndex''"
    "distinct (map (\<lambda>r. cell_at r 0) b)" "\<forall>r'\<in>set b. \<exists>s. cell_at r' 0 = Str s"
  shows "map_of (vertical_row ks idx b) f = Some (or_empty (cell_at r 1))"
proof -
  let ?kvs = "map (\<lambda>r. (js_String (cell_at r 0), or_empty (cell_at r 1))) b"
  have inj: "inj_on js_String ((\<lambda>r. cell_at r 0) ` set b)"
  proof (rule inj_onI)
    fix x y
    assume "x \<in> (\<lambda>r. cell_at r 0) ` set b" "y \<in> (\<lambda>r. cell_at r 0) ` set b"
      and e: "js_String x = js_String y"
    with assms(6) have "\<exists>s. x = Str s" "\<exists>t. y = Str t" by auto
    with e show "x = y" by auto
  qed
  have "map fst ?kvs = map js_String (map (\<lambda>r. cell_at r 0) b)" by simp
  then have "distinct (map fst ?kvs)"
    using assms(5) inj by (simp add: distinct_map del: map_map)
  then have "distinct (map fst (rev ?kvs))" by (simp add: rev_map[symmetric] del: map_map)
  moreover have "(f, or_empty (cell_at r 1)) \<in> set (rev ?kvs)"
    using assms(1,2) by force
  ultimately have "map_of (rev ?kvs) f = Some (or_empty (cell_at r 1))"
    by (rule map_of_is_SomeI)
  moreover have "f \<in> (\<lambda>r. js_String (cell_at r 0)) ` set b"
    using assms(1,2) by force
  ultimately show ?thesis using assms(3,4) by (simp add: vertical_row_lookup)
qed

lemma vertical_row_missing:
  assumes "Str f \<in> set ks" "f \<notin> set object_prototype_keys" "f \<noteq> ''_rowIndex''"
    "\<forall>r\<in>set b. js_String (cell_at r 0) \<noteq> f"
  shows "map_of (vertical_row ks idx b) f = Some (Str [])"
proof -
  have "f \<in> js_String ` set ks" using assms(1) by force
  moreover have "f \<notin> (\<lambda>r. js_String (cell_at r 0)) ` set b" using assms(4) by auto
  ultimately show ?thesis using assms(2,3) by (simp add: vertical_row_lookup)
qed

lemma fold_blocks:
  assumes "seen = map (\<lambda>r. cell_at r 0) cur"
  shows "(case foldl block_step (blocks, cur, seen) rs of (b, c, s) \<Rightarrow> if c \<noteq> [] then b @ [c] else b)
     = blocks @ (if cur = [] then split_blocks rs
                 else (cur @ field_run seen rs) # split_blocks (drop (length (field_run seen rs)) rs))"
  using assms
proof (induction rs arbitrary: blocks cur seen)
  case Nil
  then show ?case by simp
next
  case (Cons r rs)
  let ?k = "cell_at r 0"
  consider (empty) "\<not> truthy ?k" | (repeated) "truthy ?k" "?k \<in> set seen"
    | (fresh) "truthy ?k" "?k \<notin> set seen" by blast
  then show ?case
  proof cases
    case empty
    define b where "b = (if cur \<noteq> [] then blocks @ [cur] else blocks)"
    have step: "foldl block_step (blocks, cur, seen) (r # rs) = foldl block_step (b, [], []) rs"
      using empty by (simp add: block_step_cases b_def)
    have "(case foldl block_step (b, [], []) rs of (b, c, s) \<Rightarrow> if c \<noteq> [] then b @ [c] else b)
        = b @ split_blocks rs"
      using Cons.IH[of "[]" "[]" b] by simp
    then show ?thesis unfolding step using empty by (simp add: b_def)
  next
    case repeated
    then have ne: "cur \<noteq> []" using Cons.prems by auto
    have step: "foldl block_step (blocks, cur, seen) (r # rs)
        = foldl block_step (blocks @ [cur], [r], [?k]) rs"
      using repeated ne by (simp add: block_step_cases)
    have "(case foldl block_step (blocks @ [cur], [r], [?k]) rs of (b, c, s) \<Rightarrow> if c \<noteq> [] then b @ [c] else b)
        = (blocks @ [cur]) @ (([r] @ field_run [?k] rs) # split_blocks (drop (length (field_run [?k] rs)) rs))"
      using Cons.IH[of "[?k]" "[r]" "blocks @ [cur]"] by simp
    then show ?thesis unfolding step using repeated ne by simp
  next
    case fresh
    have step: "foldl block_step (blocks, cur, seen) (r # rs)
        = foldl block_step (blocks, cur @ [r], seen @ [?k]) rs"
      using fresh by (simp add: block_step_cases)
    have "(case foldl block_step (blocks, cur @ [r], seen @ [?k]) rs of (b, c, s) \<Rightarrow> if c \<noteq> [] then b @ [c] else b)
        = blocks @ (((cur @ [r]) @ field_run (seen @ [?k]) rs)
                     # split_blocks (drop (length (field_run (seen @ [?k]) rs)) rs))"
      using Cons.IH[of "seen @ [?k]" "cur @ [r]" blocks] Cons.prems by simp
    then show ?thesis unfolding step using fresh Cons.prems by (cases "cur = []") simp_all
  qed
qed

lemma blocks_of_split: "blocks_of rows2D = split_blocks rows2D"
  using fold_blocks[of "[]" "[]" "[]" rows2D] by (simp add: blocks_of_def)

lemma distinct_fill_missing:
  "distinct (map fst ob)
     \<Longrightarrow> distinct (map fst (foldl (\<lambda>ob k. if \<not> obj_in (js_String k) ob
                                            then cell_assign ob (js_String k) (Str []) else ob) ob ks))"
  by (induction ks arbitrary: ob) (auto simp: distinct_cell_assign)

lemma distinct_vertical_row: "distinct (map fst (vertical_row ks idx b))"
proof -
  have "distinct (map fst (foldl (\<lambda>ob (k, v). cell_assign ob k v) []
          (map (\<lambda>r. (js_String (cell_at r 0), or_empty (cell_at r 1))) b)))"
    by (rule distinct_foldl_cell_assign) simp
  then show ?thesis
    unfolding vertical_row_def Let_def vertical_pairs
    by (intro distinct_cell_assign distinct_fill_missing)
qed

lemma vertical_row_keys:
  "fst ` set (vertical_row ks idx b) =
     {''_rowIndex''} \<union> ((\<lambda>r. js_String (cell_at r 0)) ` set b - {''__proto__''})
       \<union> (js_String ` set ks - set object_prototype_keys)"
proof -
  let ?kvs = "map (\<lambda>r. (js_String (cell_at r 0), or_empty (cell_at r 1))) b"
  have d: "dom (map_of (rev ?kvs)) = (\<lambda>r. js_String (cell_at r 0)) ` set b"
    by (force simp: dom_map_of_conv_image_fst)
  have "dom (map_of (vertical_row ks idx b)) =
     {''_rowIndex''} \<union> ((\<lambda>r. js_String (cell_at r 0)) ` set b - {''__proto__''})
       \<union> (js_String ` set ks - set object_prototype_keys)"
    unfolding dom_def vertical_row_lookup using d[unfolded dom_def] by auto
  then show ?thesis by (simp add: dom_map_of_conv_image_fst)
qed

lemma vertical_has_value:
  assumes "distinct (map (\<lambda>r. cell_at r 0) b)" "\<forall>r'\<in>set b. \<exists>s. cell_at r' 0 = Str s"
  shows "has_value (vertical_row ks idx b) \<longleftrightarrow>
     idx \<noteq> 0
     \<or> (\<exists>r\<in>set b. \<exists>f. cell_at r 0 = Str f \<and> f \<noteq> ''__proto__'' \<and> f \<noteq> ''_rowIndex''
           \<and> non_empty (cell_at r 1))"
proof -
  let ?kvs = "map (\<lambda>r. (js_String (cell_at r 0), or_empty (cell_at r 1))) b"
  let ?R = "\<exists>r\<in>set b. \<exists>f. cell_at r 0 = Str f \<and> f \<noteq> ''__proto__'' \<and> f \<noteq> ''_rowIndex''
           \<and> non_empty (cell_at r 1)"
  have v: "has_value (vertical_row ks idx b)
      \<longleftrightarrow> (\<exists>k v. map_of (vertical_row ks idx b) k = Some v \<and> non_empty v)"
    by (rule has_value_iff[OF distinct_vertical_row])
  have blank: "\<not> non_empty (Str [])" by (simp add: non_empty_def)
  show ?thesis
  proof
    assume "has_value (vertical_row ks idx b)"
    with v obtain k w where kw: "map_of (vertical_row ks idx b) k = Some w" "non_empty w" by blast
    show "idx \<noteq> 0 \<or> ?R"
    proof (cases "k = ''_rowIndex''")
      case True
      with kw have "non_empty (Num (int idx))" by (simp add: vertical_row_lookup)
      then show ?thesis by (simp add: non_empty_Num_iff)
    next
      case False
      with kw blank have p: "k \<noteq> ''__proto__''" and m: "map_of (rev ?kvs) k = Some w"
        by (auto simp: vertical_row_lookup split: if_splits)
      from m have "(k, w) \<in> set ?kvs" by (auto dest: map_of_SomeD)
      then obtain r where r: "r \<in> set b" "k = js_String (cell_at r 0)" "w = or_empty (cell_at r 1)"
        by auto
      from assms(2) r(1) obtain f where f: "cell_at r 0 = Str f" by blast
      with r(2) have "f = k" by simp
      moreover have "non_empty (cell_at r 1)"
        using kw(2) r(3) by (simp add: non_empty_or_empty_iff)
      ultimately have ?R using r(1) f p False by blast
      then show ?thesis ..
    qed
  next
    assume "idx \<noteq> 0 \<or> ?R"
    then show "has_value (vertical_row ks idx b)"
    proof
      assume "idx \<noteq> 0"
      then have "non_empty (Num (int idx))" by (simp add: non_empty_Num_iff)
      moreover have "map_of (vertical_row ks idx b) ''_rowIndex'' = Some (Num (int idx))"
        by (simp add: vertical_row_lookup)
      ultimately show ?thesis using v by blast
    next
      assume ?R
      then obtain r f where r: "r \<in> set b" "cell_at r 0 = Str f" "f \<noteq> ''__proto__''"
        "f \<noteq> ''_rowIndex''" "non_empty (cell_at r 1)" by blast
      have "map_of (vertical_row ks idx b) f = Some (or_empty (cell_at r 1))"
        using r(1-4) assms by (rule vertical_row_field)
      moreover have "non_empty (or_empty (cell_at r 1))"
        using r(5) by (simp add: non_empty_or_empty_iff)
      ultimately show ?thesis using v by blast
    qed
  qed
qed

text \<open>
  Claim C3, as amended. The sheet is read as vertical exactly when its first column holds
  more than three distinct non-empty values and every cell from the third column on is
  empty. The blocks are the longest runs of rows whose first cells are truthy and do not
  repeat within the run, so a block ends at a falsy first cell and at a repeated field
  name; the field names are the truthy first-column cells.
  When all of these are text, the column keys are the field names, and every block gives
  an object. Its keys are \<^verbatim>\<open>_rowIndex\<close>, which holds the position of the block, the
  field names of the block other than \<^verbatim>\<open>__proto__\<close> (an assignment to that name is
  ignored), and every other field name of the sheet that is not a name every object
  inherits. A field of the block other than \<^verbatim>\<open>__proto__\<close> and \<^verbatim>\<open>_rowIndex\<close> holds
  its second cell (the empty string for a missing one); a field name of the sheet that
  is not in the block, not inherited and not \<^verbatim>\<open>_rowIndex\<close> holds the empty string.
  The objects that hold a non-empty value are the output rows, in order: these are the
  objects of all blocks but the first (their \<^verbatim>\<open>_rowIndex\<close> is a non-zero number), and
  the object of the first block exactly when the block has a non-empty second cell in a
  row whose field name is neither \<^verbatim>\<open>__proto__\<close> nor \<^verbatim>\<open>_rowIndex\<close>.
\<close>

theorem vertical_import:
  "isVertical rows2D =
     (3 < card {c. non_empty c \<and> (\<exists>r\<in>set rows2D. c = cell_at r 0)}
      \<and> (\<forall>r\<in>set rows2D. \<forall>c\<in>set (drop 2 r). \<not> non_empty c))
   \<and> blocks_of rows2D = split_blocks rows2D
   \<and> concat (blocks_of rows2D) = filter (\<lambda>r. truthy (cell_at r 0)) rows2D
   \<and> (\<forall>b\<in>set (blocks_of rows2D). b \<noteq> [] \<and> distinct (map (\<lambda>r. cell_at r 0) b))
   \<and> set (allKeys_of (blocks_of rows2D)) = {k. truthy k \<and> (\<exists>r\<in>set rows2D. k = cell_at r 0)}
   \<and> (rows2D \<noteq> [] \<and> isVertical rows2D \<and> (\<forall>r\<in>set rows2D. text_or_empty (cell_at r 0)) \<longrightarrow>
        (\<exists>cols rs. parse_sheet rows2D = Inr (Some (cols, rs))
           \<and> map col_key cols = map js_String (allKeys_of (blocks_of rows2D))
           \<and> rs = map to_row (filter has_value
                    (map (\<lambda>(idx, b). vertical_row (allKeys_of (blocks_of rows2D)) idx b)
                       (List.enumerate 0 (blocks_of rows2D))))))
   \<and> map_of (vertical_row ks idx b) ''_rowIndex'' = Some (Num (int idx))
   \<and> (distinct (map (\<lambda>r. cell_at r 0) b) \<and> (\<forall>r'\<in>set b. \<exists>s. cell_at r' 0 = Str s) \<longrightarrow>
        (\<forall>r\<in>set b. \<forall>f. cell_at r 0 = Str f \<and> f \<noteq> ''__proto__'' \<and> f \<noteq> ''_rowIndex''
            \<longrightarrow> map_of (vertical_row ks idx b) f = Some (or_empty (cell_at r 1))
                \<and> (non_empty (cell_at r 1) \<longrightarrow> has_value (vertical_row ks idx b)))
        \<and> (\<forall>f. Str f \<in> set ks \<and> f \<notin> set object_prototype_keys \<and> f \<noteq> ''_rowIndex''
                \<and> (\<forall>r\<in>set b. cell_at r 0 \<noteq> Str f)
            \<longrightarrow> map_of (vertical_row ks idx b) f = Some (Str [])))
   \<and> fst ` set (vertical_row ks idx b) =
        {''_rowIndex''} \<union> ((\<lambda>r. js_String (cell_at r 0)) ` set b - {''__proto__''})
          \<union> (js_String ` set ks - set object_prototype_keys)
   \<and> (distinct (map (\<lambda>r. cell_at r 0) b) \<and> (\<forall>r'\<in>set b. \<exists>s. cell_at r' 0 = Str s) \<longrightarrow>
        (has_value (vertical_row ks idx b) \<longleftrightarrow>
           idx \<noteq> 0
           \<or> (\<exists>r\<in>set b. \<exists>f. cell_at r 0 = Str f \<and> f \<noteq> ''__proto__'' \<and> f \<noteq> ''_rowIndex''
                 \<and> non_empty (cell_at r 1))))"
proof (intro conjI)
  show "isVertical rows2D =
     (3 < card {c. non_empty c \<and> (\<exists>r\<in>set rows2D. c = cell_at r 0)}
      \<and> (\<forall>r\<in>set rows2D. \<forall>c\<in>set (drop 2 r). \<not> non_empty c))"
    by (rule isVertical_iff)
next
  show "blocks_of rows2D = split_blocks rows2D"
    by (rule blocks_of_split)
next
  show "concat (blocks_of rows2D) = filter (\<lambda>r. truthy (cell_at r 0)) rows2D"
    using blocks_of_partition by blast
next
  show "\<forall>b\<in>set (blocks_of rows2D). b \<noteq> [] \<and> distinct (map (\<lambda>r. cell_at r 0) b)"
    using blocks_of_partition by blast
next
  show "set (allKeys_of (blocks_of rows2D)) = {k. truthy k \<and> (\<exists>r\<in>set rows2D. k = cell_at r 0)}"
    by (rule set_allKeys)
next
  show "rows2D \<noteq> [] \<and> isVertical rows2D \<and> (\<forall>r\<in>set rows2D. text_or_empty (cell_at r 0)) \<longrightarrow>
        (\<exists>cols rs. parse_sheet rows2D = Inr (Some (cols, rs))
           \<and> map col_key cols = map js_String (allKeys_of (blocks_of rows2D))
           \<and> rs = map to_row (filter has_value
                    (map (\<lambda>(idx, b). vertical_row (allKeys_of (blocks_of rows2D)) idx b)
                       (List.enumerate 0 (blocks_of rows2D)))))"
  proof
    assume a: "rows2D \<noteq> [] \<and> isVertical rows2D \<and> (\<forall>r\<in>set rows2D. text_or_empty (cell_at r 0))"
    let ?ks = "allKeys_of (blocks_of rows2D)"
    let ?cols = "map (\<lambda>k. imported_column (js_String k) (capitalize (js_String k))) ?ks"
    let ?rs = "map to_row (filter has_value
                    (map (\<lambda>(idx, b). vertical_row ?ks idx b) (List.enumerate 0 (blocks_of rows2D))))"
    have keys: "map col_key ?cols = map js_String ?ks" by (simp add: comp_def)
    have "parse_sheet rows2D = Inr (Some (?cols, ?rs))"
      using a import_vertical_result[of rows2D] by (simp add: parse_sheet_def)
    then show "\<exists>cols rs. parse_sheet rows2D = Inr (Some (cols, rs))
           \<and> map col_key cols = map js_String (allKeys_of (blocks_of rows2D))
           \<and> rs = map to_row (filter has_value
                    (map (\<lambda>(idx, b). vertical_row (allKeys_of (blocks_of rows2D)) idx b)
                       (List.enumerate 0 (blocks_of rows2D))))"
      using keys by (intro exI[of _ ?cols] exI[of _ ?rs]) (simp only: simp_thms)
  qed
next
  show "map_of (vertical_row ks idx b) ''_rowIndex'' = Some (Num (int idx))"
    by (simp add: vertical_row_lookup)
next
  show "distinct (map (\<lambda>r. cell_at r 0) b) \<and> (\<forall>r'\<in>set b. \<exists>s. cell_at r' 0 = Str s) \<longrightarrow>
        (\<forall>r\<in>set b. \<forall>f. cell_at r 0 = Str f \<and> f \<noteq> ''__proto__'' \<and> f \<noteq> ''_rowIndex''
            \<longrightarrow> map_of (vertical_row ks idx b) f = Some (or_empty (cell_at r 1))
                \<and> (non_empty (cell_at r 1) \<longrightarrow> has_value (vertical_row ks idx b)))
        \<and> (\<forall>f. Str f \<in> set ks \<and> f \<notin> set object_prototype_keys \<and> f \<noteq> ''_rowIndex''
                \<and> (\<forall>r\<in>set b. cell_at r 0 \<noteq> Str f)
            \<longrightarrow> map_of (vertical_row ks idx b) f = Some (Str []))"
  proof (intro impI conjI ballI allI)
    fix r f
    assume d: "distinct (map (\<lambda>r. cell_at r 0) b) \<and> (\<forall>r'\<in>set b. \<exists>s. cell_at r' 0 = Str s)"
      and r: "r \<in> set b" and f: "cell_at r 0 = Str f \<and> f \<noteq> ''__proto__'' \<and> f \<noteq> ''_rowIndex''"
    show v: "map_of (vertical_row ks idx b) f = Some (or_empty (cell_at r 1))"
      using vertical_row_field[of r b f ks idx] d r f by blast
    assume "non_empty (cell_at r 1)"
    with v show "has_value (vertical_row ks idx b)"
      using has_valueI non_empty_or_empty by metis
  next
    fix f
    assume d: "distinct (map (\<lambda>r. cell_at r 0) b) \<and> (\<forall>r'\<in>set b. \<exists>s. cell_at r' 0 = Str s)"
      and f: "Str f \<in> set ks \<and> f \<notin> set object_prototype_keys \<and> f \<noteq> ''_rowIndex''
                \<and> (\<forall>r\<in>set b. cell_at r 0 \<noteq> Str f)"
    have "\<forall>r\<in>set b. js_String (cell_at r 0) \<noteq> f"
    proof
      fix r assume "r \<in> set b"
      with d obtain s where s: "cell_at r 0 = Str s" by blast
      with f \<open>r \<in> set b\<close> have "s \<noteq> f" by auto
      with s show "js_String (cell_at r 0) \<noteq> f" by simp
    qed
    then show "map_of (vertical_row ks idx b) f = Some (Str [])"
      using vertical_row_missing[of f ks b idx] f by blast
  qed
next
  show "fst ` set (vertical_row ks idx b) =
        {''_rowIndex''} \<union> ((\<lambda>r. js_String (cell_at r 0)) ` set b - {''__proto__''})
          \<union> (js_String ` set ks - set object_prototype_keys)"
    by (rule vertical_row_keys)
next
  show "distinct (map (\<lambda>r. cell_at r 0) b) \<and> (\<forall>r'\<in>set b. \<exists>s. cell_at r' 0 = Str s) \<longrightarrow>
        (has_value (vertical_row ks idx b) \<longleftrightarrow>
           idx \<noteq> 0
           \<or> (\<exists>r\<in>set b. \<exists>f. cell_at r 0 = Str f \<and> f \<noteq> ''__proto__'' \<and> f \<noteq> ''_rowIndex''
                 \<and> non_empty (cell_at r 1)))"
    using vertical_has_value by blast
qed

lemma contact_sheet_facts:
  "isVertical contact_sheet = True"
  "map js_String (allKeys_of (blocks_of contact_sheet)) = [''name'', ''city'', ''zip'', ''tel'']"
  "filter has_value (map (\<lambda>(idx, b). vertical_row (allKeys_of (blocks_of contact_sheet)) idx b)
       (List.enumerate 0 (blocks_of contact_sheet)))
     = [[(''name'', Str ''Acme''), (''city'', Str ''Oslo''), (''zip'', Num 7), (''tel'', Str ''1''),
         (''_rowIndex'', Num 0)],
        [(''name'', Str ''Bolt''), (''city'', Str ''Rome''), (''zip'', Str []), (''tel'', Str []),
         (''_rowIndex'', Num 1)]]"
  by code_simp+

text \<open>
  The theorem on a sheet of two contacts, the second without \<^verbatim>\<open>zip\<close> and \<^verbatim>\<open>tel\<close>.
\<close>

theorem vertical_import_witness:
  "contact_sheet \<noteq> [] \<and> isVertical contact_sheet
   \<and> (\<exists>cols rs. parse_sheet contact_sheet = Inr (Some (cols, rs))
        \<and> map col_key cols = [''name'', ''city'', ''zip'', ''tel'']
        \<and> rs = [[(''name'', Prim (Str ''Acme'')), (''city'', Prim (Str ''Oslo'')), (''zip'', Prim (Num 7)),
                  (''tel'', Prim (Str ''1'')), (''_rowIndex'', Prim (Num 0))],
                 [(''name'', Prim (Str ''Bolt'')), (''city'', Prim (Str ''Rome'')), (''zip'', Prim (Str [])),
                  (''tel'', Prim (Str [])), (''_rowIndex'', Prim (Num 1))]])"
proof -
  have ne: "contact_sheet \<noteq> []" by (simp add: contact_sheet_def)
  have cells: "\<forall>r\<in>set contact_sheet. text_or_empty (cell_at r 0)"
    by (simp add: contact_sheet_def text_or_empty_def cell_at_def)
  have h: "contact_sheet \<noteq> [] \<and> isVertical contact_sheet
      \<and> (\<forall>r\<in>set contact_sheet. text_or_empty (cell_at r 0))"
    using ne cells by (simp add: contact_sheet_facts)
  note t = vertical_import[of contact_sheet, THEN conjunct2, THEN conjunct2, THEN conjunct2,
      THEN conjunct2, THEN conjunct2, THEN conjunct1, THEN mp, OF h]
  from t obtain cols rs where r: "parse_sheet contact_sheet = Inr (Some (cols, rs))"
    "map col_key cols = map js_String (allKeys_of (blocks_of contact_sheet))"
    "rs = map to_row (filter has_value
                    (map (\<lambda>(idx, b). vertical_row (allKeys_of (blocks_of contact_sheet)) idx b)
                       (List.enumerate 0 (blocks_of contact_sheet))))"
    by (elim exE conjE) (rule that; assumption)
  have k: "map col_key cols = [''name'', ''city'', ''zip'', ''tel'']"
    using r(2) by (simp add: contact_sheet_facts)
  have "rs = [[(''name'', Prim (Str ''Acme'')), (''city'', Prim (Str ''Oslo'')), (''zip'', Prim (Num 7)),
                  (''tel'', Prim (Str ''1'')), (''_rowIndex'', Prim (Num 0))],
                 [(''name'', Prim (Str ''Bolt'')), (''city'', Prim (Str ''Rome'')), (''zip'', Prim (Str [])),
                  (''tel'', Prim (Str [])), (''_rowIndex'', Prim (Num 1))]]"
    unfolding r(3) contact_sheet_facts by (simp add: to_row_def)
  with r(1) k ne show ?thesis by (simp add: contact_sheet_facts)
qed

lemma blank_values_facts:
  "isVertical blank_values_sheet = True"
  "blocks_of blank_values_sheet = [blank_values_sheet]"
  "allKeys_of [blank_values_sheet] = [Str ''a'', Str ''b'', Str ''c'', Str ''d'']"
  "has_value (vertical_row [Str ''a'', Str ''b'', Str ''c'', Str ''d''] 0 blank_values_sheet) = False"
  by code_simp+

lemma proto_field_facts:
  "isVertical proto_field_sheet = True"
  "blocks_of proto_field_sheet
     = [[[Str ''__proto__'', Str ''x'']],
        [[Str ''a'', Str []], [Str ''b'', Str []], [Str ''c'', Str []], [Str ''d'', Str []]]]"
  "map_sum id (map_option snd) (parse_sheet proto_field_sheet)
     = Inr (Some [[(''a'', Prim (Str [])), (''b'', Prim (Str [])), (''c'', Prim (Str [])),
                   (''d'', Prim (Str [])), (''_rowIndex'', Prim (Num 1))]])"
  by code_simp+

text \<open>
  Claim C3 as stated fails on a vertical sheet of four field names without values: there
  is one block and no output row. It fails also on a sheet whose first block is the field
  \<^verbatim>\<open>__proto__\<close> with the value \<^verbatim>\<open>x\<close>: that block gives no output row, and the one
  output row, of the second block, has no key \<^verbatim>\<open>__proto__\<close>.
\<close>

theorem vertical_import_counterexample:
  "isVertical blank_values_sheet = True
   \<and> blocks_of blank_values_sheet = [blank_values_sheet]
   \<and> map_sum id (map_option snd) (parse_sheet blank_values_sheet) = Inr (Some [])
   \<and> isVertical proto_field_sheet = True
   \<and> blocks_of proto_field_sheet
     = [[[Str ''__proto__'', Str ''x'']],
        [[Str ''a'', Str []], [Str ''b'', Str []], [Str ''c'', Str []], [Str ''d'', Str []]]]
   \<and> map_sum id (map_option snd) (parse_sheet proto_field_sheet)
     = Inr (Some [[(''a'', Prim (Str [])), (''b'', Prim (Str [])), (''c'', Prim (Str [])),
                   (''d'', Prim (Str [])), (''_rowIndex'', Prim (Num 1))]])"
proof -
  have "\<forall>r\<in>set blank_values_sheet. text_or_empty (cell_at r 0)"
    by (simp add: blank_values_sheet_def text_or_empty_def cell_at_def)
  from import_vertical_result[OF this]
  have "import_vertical blank_values_sheet
      = Inr (map (\<lambda>k. imported_column (js_String k) (capitalize (js_String k)))
               [Str ''a'', Str ''b'', Str ''c'', Str ''d''], [])"
    unfolding blank_values_facts by (simp add: enumerate_eq_zip blank_values_facts)
  moreover have "blank_values_sheet \<noteq> []" by (simp add: blank_values_sheet_def)
  ultimately have "parse_sheet blank_values_sheet
      = Inr (Some (map (\<lambda>k. imported_column (js_String k) (capitalize (js_String k)))
               [Str ''a'', Str ''b'', Str ''c'', Str ''d''], []))"
    by (simp add: parse_sheet_def blank_values_facts)
  then have "map_sum id (map_option snd) (parse_sheet blank_values_sheet) = Inr (Some [])"
    by simp
  with blank_values_facts(1,2) proto_field_facts show ?thesis by (intro conjI)
qed

section \<open>Where the import throws\<close>

lemma year_sheet_facts:
  "isVertical year_sheet = False" "headerRowIndex year_sheet = 0"
proof -
  have u: "unique [Num 2023, Num 1] = [Num 2023, Num 1]" "unique [Num 2023, Num 2024] = [Num 2023, Num 2024]"
    "unique [Num 1, Num 2] = [Num 1, Num 2]"
    by (simp_all add: unique_def)
  show "isVertical year_sheet = False"
    by (simp add: isVertical_def year_sheet_def cell_at_def non_empty_Num u)
  have "[0..<min 10 (length year_sheet)] = [0, 1]"
    by (simp add: year_sheet_def upt_rec)
  then show "headerRowIndex year_sheet = 0"
    by (simp add: headerRowIndex_def header_step_def score_def year_sheet_def non_empty_Num u)
qed

lemma parse_sheet_throws_on_header:
  assumes "rows2D \<noteq> []" "\<not> isVertical rows2D" "c \<in> set (rows2D ! headerRowIndex rows2D)"
    "\<not> text_or_empty c"
  shows "parse_sheet rows2D = Inl TypeError"
proof -
  from collect_Inl[of c "rows2D ! headerRowIndex rows2D" normalizeKey TypeError]
    assms(3) normalizeKey_throws[OF assms(4)]
  obtain e where "collect (map normalizeKey (rows2D ! headerRowIndex rows2D)) = Inl e" by blast
  then have "import_horizontal rows2D = Inl e"
    by (simp add: import_horizontal_def Let_def)
  moreover have "e = TypeError" by (cases e) simp
  ultimately show ?thesis using assms(1,2) by (simp add: parse_sheet_def)
qed

lemma parse_sheet_horizontal_ok:
  assumes "rows2D \<noteq> []" "\<not> isVertical rows2D"
    "\<forall>c\<in>set (rows2D ! headerRowIndex rows2D). text_or_empty c"
  shows "\<exists>d. parse_sheet rows2D = Inr (Some d)"
  using assms(1,2) import_horizontal_result[OF assms(3)] by (simp add: parse_sheet_def)

lemma handleImportExcel_nothing_selected:
  assumes "selectedCategory s = None" "parse_sheet rows2D = Inr (Some d)"
  shows "handleImportExcel rows2D s = Inl TypeError"
  using assms by (cases d) (simp add: handleImportExcel_def updateCurrentData_def)

text \<open>
  Claim C4 fails on the code. A sheet whose header row holds the numbers 2023 and 2024
  makes the import throw, with a scorecard selected; so does any sheet with rows when
  nothing is selected. A sheet without rows leaves the state as it was.
\<close>

theorem import_throws:
  "handleImportExcel year_sheet (sample_state sample_columns sample_rows) = Inl TypeError
   \<and> handleImportExcel price_sheet initial_state = Inl TypeError
   \<and> handleImportExcel [] s = Inr s"
proof -
  have "Num 2023 \<in> set (year_sheet ! headerRowIndex year_sheet)" "\<not> text_or_empty (Num 2023)"
    "year_sheet \<noteq> []"
    unfolding year_sheet_facts by (simp_all add: year_sheet_def text_or_empty_def)
  then have "parse_sheet year_sheet = Inl TypeError"
    using parse_sheet_throws_on_header[of year_sheet "Num 2023"] year_sheet_facts by simp
  then have a: "handleImportExcel year_sheet (sample_state sample_columns sample_rows) = Inl TypeError"
    by (simp add: handleImportExcel_def)
  have "\<forall>c\<in>set (price_sheet ! headerRowIndex price_sheet). text_or_empty c"
    unfolding price_sheet_facts by (simp add: price_sheet_def text_or_empty_def)
  moreover have "price_sheet \<noteq> []" by (simp add: price_sheet_def)
  ultimately obtain d where "parse_sheet price_sheet = Inr (Some d)"
    using parse_sheet_horizontal_ok[of price_sheet] price_sheet_facts(2) by auto
  then have b: "handleImportExcel price_sheet initial_state = Inl TypeError"
    by (rule handleImportExcel_nothing_selected[rotated]) (simp add: initial_state_def)
  have c: "handleImportExcel [] s = Inr s"
    by (simp add: handleImportExcel_def parse_sheet_def)
  from a b c show ?thesis by simp
qed

section \<open>Saving and loading scorecards\<close>

lemma json_roundtrip:
  "json_data v \<Longrightarrow> \<exists>j. JSON_stringify v = Some j \<and> JSON_parse j = v"
  "json_data_list xs \<Longrightarrow> parse_elems (stringify_elems xs) = xs"
  "json_data_props kvs \<Longrightarrow> parse_props (stringify_props kvs) = kvs"
proof (induction v and xs and kvs rule: json_data_json_data_list_json_data_props.induct)
  case (1 p)
  then show ?case by (cases p) auto
qed auto

lemma stringify_props_append:
  "stringify_props (xs @ ys) = stringify_props xs @ stringify_props ys"
  by (induction xs) (auto split: option.splits)

lemma parse_props_append: "parse_props (xs @ ys) = parse_props xs @ parse_props ys"
  by (induction xs) auto

lemma stringify_props_func [simp]: "stringify_props (opt_prop k Func v) = []"
  by (cases v) (simp_all add: opt_prop_def)

lemma stringify_props_bool [simp]:
  "parse_props (stringify_props (opt_prop k (\<lambda>b. Prim (Bool b)) v)) = opt_prop k (\<lambda>b. Prim (Bool b)) v"
  by (cases v) (simp_all add: opt_prop_def)

lemma column_roundtrip:
  "\<exists>j. JSON_stringify (js_of_column c) = Some j \<and> JSON_parse j = loaded_column c"
  by (simp add: js_of_column_def loaded_column_def stringify_props_append parse_props_append)
     (simp add: opt_prop_def)

lemma columns_roundtrip:
  "parse_elems (stringify_elems (map js_of_column cs)) = map loaded_column cs"
proof (induction cs)
  case Nil
  show ?case by simp
next
  case (Cons c cs)
  from column_roundtrip[of c] obtain j where "JSON_stringify (js_of_column c) = Some j"
    "JSON_parse j = loaded_column c" by blast
  with Cons show ?case by simp
qed

lemma rows_roundtrip:
  "\<forall>r\<in>set rs. json_data (Obj r) \<Longrightarrow> parse_elems (stringify_elems (map Obj rs)) = map Obj rs"
proof (induction rs)
  case Nil
  show ?case by simp
next
  case (Cons r rs)
  then have "json_data_props r" by simp
  from json_roundtrip(3)[OF this] Cons show ?case by simp
qed

lemma scorecard_roundtrip:
  assumes "(\<exists>d. createdAt sc = Date d) \<or> json_data (createdAt sc)"
    and "\<forall>r\<in>set (sc_rows sc). json_data (Obj r)"
  shows "\<exists>j. JSON_stringify (js_of_scorecard sc) = Some j \<and> JSON_parse j = loaded_scorecard sc"
proof -
  from assms(1) obtain jc where jc: "JSON_stringify (createdAt sc) = Some jc"
    "JSON_parse jc = (case createdAt sc of Date d \<Rightarrow> Prim (Str d) | v \<Rightarrow> v)"
  proof
    assume "\<exists>d. createdAt sc = Date d"
    then obtain d where "createdAt sc = Date d" by blast
    then show ?thesis using that[of "JStr d"] by simp
  next
    assume a: "json_data (createdAt sc)"
    from json_roundtrip(1)[OF a] obtain j where j: "JSON_stringify (createdAt sc) = Some j"
      "JSON_parse j = createdAt sc" by blast
    from a have "(case createdAt sc of Date d \<Rightarrow> Prim (Str d) | v \<Rightarrow> v) = createdAt sc"
      by (cases "createdAt sc") auto
    with j show ?thesis using that[of j] by simp
  qed
  show ?thesis
    using jc rows_roundtrip[OF assms(2)]
    by (simp add: js_of_scorecard_def loaded_scorecard_def columns_roundtrip)
qed

lemma scorecards_roundtrip:
  assumes "\<forall>sc\<in>set scs. ((\<exists>d. createdAt sc = Date d) \<or> json_data (createdAt sc))
             \<and> (\<forall>r\<in>set (sc_rows sc). json_data (Obj r))"
  shows "parse_elems (stringify_elems (map js_of_scorecard scs)) = map loaded_scorecard scs"
  using assms
proof (induction scs)
  case Nil
  show ?case by simp
next
  case (Cons sc scs)
  from Cons.prems have "(\<exists>d. createdAt sc = Date d) \<or> json_data (createdAt sc)"
    "\<forall>r\<in>set (sc_rows sc). json_data (Obj r)" by auto
  from scorecard_roundtrip[OF this] obtain j where "JSON_stringify (js_of_scorecard sc) = Some j"
    "JSON_parse j = loaded_scorecard sc" by blast
  with Cons show ?case by simp
qed

lemma loaded_column_plain:
  "renderEditCell c = None \<Longrightarrow> renderCell c = None \<Longrightarrow> renderHeaderCell c = None
     \<Longrightarrow> loaded_column c = js_of_column c"
  by (cases c) (simp add: loaded_column_def)

lemma loaded_scorecard_plain:
  assumes "json_data (createdAt sc)"
    "\<forall>c\<in>set (sc_columns sc). renderEditCell c = None \<and> renderCell c = None \<and> renderHeaderCell c = None"
  shows "loaded_scorecard sc = js_of_scorecard sc"
proof -
  from assms(1) have "(case createdAt sc of Date d \<Rightarrow> Prim (Str d) | v \<Rightarrow> v) = createdAt sc"
    by (cases "createdAt sc") auto
  moreover have "map loaded_column (sc_columns sc) = map js_of_column (sc_columns sc)"
    using assms(2) by (auto intro!: map_cong loaded_column_plain)
  ultimately show ?thesis by (simp add: loaded_scorecard_def js_of_scorecard_def)
qed

text \<open>
  Claim C5, as amended. Saving a list of scorecards and loading it again gives, for every
  scorecard whose rows are plain JSON data, the same id, name and rows, the columns
  without their rendering functions, and the creation date as the text of the date; for
  scorecards that hold neither functions nor a \<^verbatim>\<open>Date\<close> the loaded list equals the
  saved one. When the stored item is absent or does not parse, loading gives the empty
  list.
\<close>

theorem scorecards_save_load:
  "((\<forall>sc\<in>set scs. ((\<exists>d. createdAt sc = Date d) \<or> json_data (createdAt sc))
                   \<and> (\<forall>r\<in>set (sc_rows sc). json_data (Obj r)))
     \<longrightarrow> loadScoreCardsFromStorage (saveScoreCardsToStorage scs s) = Arr (map loaded_scorecard scs))
   \<and> ((\<forall>sc\<in>set scs. json_data (createdAt sc)
           \<and> (\<forall>r\<in>set (sc_rows sc). json_data (Obj r))
           \<and> (\<forall>c\<in>set (sc_columns sc).
                 renderEditCell c = None \<and> renderCell c = None \<and> renderHeaderCell c = None))
     \<longrightarrow> loadScoreCardsFromStorage (saveScoreCardsToStorage scs s) = Arr (map js_of_scorecard scs))
   \<and> (localStorage s ''scorecards'' = None \<or> localStorage s ''scorecards'' = Some Malformed
     \<longrightarrow> loadScoreCardsFromStorage s = Arr [])"
proof (intro conjI impI)
  have load: "loadScoreCardsFromStorage (saveScoreCardsToStorage scs s)
      = Arr (parse_elems (stringify_elems (map js_of_scorecard scs)))"
    by (simp add: loadScoreCardsFromStorage_def saveScoreCardsToStorage_def stored_of_def)
  {
    assume "\<forall>sc\<in>set scs. ((\<exists>d. createdAt sc = Date d) \<or> json_data (createdAt sc))
                   \<and> (\<forall>r\<in>set (sc_rows sc). json_data (Obj r))"
    then show "loadScoreCardsFromStorage (saveScoreCardsToStorage scs s) = Arr (map loaded_scorecard scs)"
      unfolding load by (simp add: scorecards_roundtrip)
  }
  {
    assume a: "\<forall>sc\<in>set scs. json_data (createdAt sc)
           \<and> (\<forall>r\<in>set (sc_rows sc). json_data (Obj r))
           \<and> (\<forall>c\<in>set (sc_columns sc).
                 renderEditCell c = None \<and> renderCell c = None \<and> renderHeaderCell c = None)"
    then have "parse_elems (stringify_elems (map js_of_scorecard scs)) = map loaded_scorecard scs"
      by (intro scorecards_roundtrip) auto
    moreover have "map loaded_scorecard scs = map js_of_scorecard scs"
      using a by (auto intro!: map_cong loaded_scorecard_plain)
    ultimately show "loadScoreCardsFromStorage (saveScoreCardsToStorage scs s) = Arr (map js_of_scorecard scs)"
      unfolding load by simp
  }
  {
    assume "localStorage s ''scorecards'' = None \<or> localStorage s ''scorecards'' = Some Malformed"
    then show "loadScoreCardsFromStorage s = Arr []"
      by (auto simp: loadScoreCardsFromStorage_def)
  }
qed

lemma json_data_sample_rows: "\<forall>r\<in>set sample_rows. json_data (Obj r)"
  by (simp add: sample_rows_def)

lemma loaded_fresh: "loaded_scorecard fresh_scorecard = js_of_scorecard reloaded_scorecard"
  by (simp add: loaded_scorecard_def js_of_scorecard_def fresh_scorecard_def reloaded_scorecard_def
      loaded_column_def js_of_column_def plain_column_def opt_prop_def)

text \<open>
  The theorem on a freshly created scorecard, on the same scorecard as held after a
  reload, and on empty storage.
\<close>

theorem scorecards_save_load_witness:
  "loadScoreCardsFromStorage (saveScoreCardsToStorage [fresh_scorecard] initial_state)
     = Arr [loaded_scorecard fresh_scorecard]
   \<and> loadScoreCardsFromStorage (saveScoreCardsToStorage [reloaded_scorecard] initial_state)
     = Arr [js_of_scorecard reloaded_scorecard]
   \<and> loadScoreCardsFromStorage (sample_state [] []) = Arr []"
proof -
  have h1: "\<forall>sc\<in>set [fresh_scorecard]. ((\<exists>d. createdAt sc = Date d) \<or> json_data (createdAt sc))
                   \<and> (\<forall>r\<in>set (sc_rows sc). json_data (Obj r))"
    using json_data_sample_rows by (simp add: fresh_scorecard_def)
  have h2: "\<forall>sc\<in>set [reloaded_scorecard]. json_data (createdAt sc)
           \<and> (\<forall>r\<in>set (sc_rows sc). json_data (Obj r))
           \<and> (\<forall>c\<in>set (sc_columns sc).
                 renderEditCell c = None \<and> renderCell c = None \<and> renderHeaderCell c = None)"
    using json_data_sample_rows by (simp add: reloaded_scorecard_def plain_column_def)
  have h3: "localStorage (sample_state [] []) ''scorecards'' = None
      \<or> localStorage (sample_state [] []) ''scorecards'' = Some Malformed"
    by (simp add: sample_state_def)
  from scorecards_save_load[of "[fresh_scorecard]" initial_state, THEN conjunct1, THEN mp, OF h1]
    scorecards_save_load[of "[reloaded_scorecard]" initial_state, THEN conjunct2, THEN conjunct1, THEN mp, OF h2]
    scorecards_save_load[of "[]" "sample_state [] []", THEN conjunct2, THEN conjunct2, THEN mp, OF h3]
  show ?thesis by simp
qed

text \<open>
  Claim C5 as stated fails on a freshly created scorecard: what is loaded has the creation
  date as a string and the \<^verbatim>\<open>buyer\<close> column without its editor, so it differs from
  what was saved.
\<close>

theorem scorecards_save_load_counterexample:
  "loadScoreCardsFromStorage (saveScoreCardsToStorage [fresh_scorecard] initial_state)
     = Arr (map js_of_scorecard [reloaded_scorecard])
   \<and> Arr (map js_of_scorecard [reloaded_scorecard]) \<noteq> Arr (map js_of_scorecard [fresh_scorecard])"
proof -
  have "loadScoreCardsFromStorage (saveScoreCardsToStorage [fresh_scorecard] initial_state)
     = Arr [loaded_scorecard fresh_scorecard]"
    using scorecards_roundtrip[of "[fresh_scorecard]"] json_data_sample_rows
    by (simp add: loadScoreCardsFromStorage_def saveScoreCardsToStorage_def stored_of_def
        fresh_scorecard_def)
  moreover have "js_of_scorecard reloaded_scorecard \<noteq> js_of_scorecard fresh_scorecard"
    by (simp add: js_of_scorecard_def reloaded_scorecard_def fresh_scorecard_def)
  ultimately show ?thesis by (simp add: loaded_fresh)
qed

section \<open>Adding a comment\<close>

lemma comments_of_update:
  "comments_of (AList.update cat
       (AList.update rid l (case map_of cs cat of None \<Rightarrow> [] | Some m \<Rightarrow> m)) cs) cat' rid'
     = (if cat' = cat \<and> rid' = rid then l else comments_of cs cat' rid')"
  by (auto simp: comments_of_def update_conv' split: option.splits)

lemma handleAddComment_adds:
  assumes "trim (commentInput s) \<noteq> []" "selectedCategory s = Some cat"
    "startsWith cat ''scorecard_''" "openCommentRowId s = Some rid"
  shows "\<exists>s'. handleAddComment now s = Inr s'
     \<and> comments s' = AList.update cat
          (AList.update rid
             (comments_of (comments s) cat rid
                @ [\<lparr>c_text = trim (commentInput s), c_timestamp = now, c_username = current_username s\<rparr>])
             (case map_of (comments s) cat of None \<Rightarrow> [] | Some m \<Rightarrow> m))
          (comments s)"
  using assms by (simp add: handleAddComment_def Let_def saveScorecardComments_def)

text \<open>
  Claim C6. When the typed text is not blank, a category whose id starts with
  \<^verbatim>\<open>scorecard_\<close> is selected and a row is open, adding a comment appends exactly one
  comment (the trimmed text, the time stamp, the user name) at the end of the list of that
  scorecard and row, and the list of every other scorecard and row is as before. When the
  text is empty or white space, or no scorecard category is selected, the comments are
  unchanged.
\<close>

theorem handleAddComment_appends:
  "(trim (commentInput s) \<noteq> [] \<and> selectedCategory s = Some cat \<and> startsWith cat ''scorecard_''
      \<and> openCommentRowId s = Some rid
     \<longrightarrow> (\<exists>s'. handleAddComment now s = Inr s'
           \<and> comments_of (comments s') cat rid
               = comments_of (comments s) cat rid
                   @ [\<lparr>c_text = trim (commentInput s), c_timestamp = now,
                       c_username = current_username s\<rparr>]
           \<and> (\<forall>cat' rid'. (cat', rid') \<noteq> (cat, rid)
                 \<longrightarrow> comments_of (comments s') cat' rid' = comments_of (comments s) cat' rid')))
   \<and> (trim (commentInput s) = []
        \<or> (\<forall>c. selectedCategory s = Some c \<longrightarrow> \<not> startsWith c ''scorecard_'')
     \<longrightarrow> comments (state_after (handleAddComment now s) s) = comments s)"
proof (intro conjI impI)
  assume a: "trim (commentInput s) \<noteq> [] \<and> selectedCategory s = Some cat \<and> startsWith cat ''scorecard_''
      \<and> openCommentRowId s = Some rid"
  then obtain s' where s': "handleAddComment now s = Inr s'"
     "comments s' = AList.update cat
          (AList.update rid
             (comments_of (comments s) cat rid
                @ [\<lparr>c_text = trim (commentInput s), c_timestamp = now, c_username = current_username s\<rparr>])
             (case map_of (comments s) cat of None \<Rightarrow> [] | Some m \<Rightarrow> m))
          (comments s)"
    using handleAddComment_adds by blast
  show "\<exists>s'. handleAddComment now s = Inr s'
           \<and> comments_of (comments s') cat rid
               = comments_of (comments s) cat rid
                   @ [\<lparr>c_text = trim (commentInput s), c_timestamp = now,
                       c_username = current_username s\<rparr>]
           \<and> (\<forall>cat' rid'. (cat', rid') \<noteq> (cat, rid)
                 \<longrightarrow> comments_of (comments s') cat' rid' = comments_of (comments s) cat' rid')"
    by (rule exI[of _ s']) (auto simp: s' comments_of_update)
next
  assume "trim (commentInput s) = []
        \<or> (\<forall>c. selectedCategory s = Some c \<longrightarrow> \<not> startsWith c ''scorecard_'')"
  then show "comments (state_after (handleAddComment now s) s) = comments s"
    by (auto simp: handleAddComment_def state_after_def split: option.splits)
qed

lemma trim_Hello: "trim '' Hello  '' = ''Hello''"
  by code_simp

text \<open>
  The theorem with row 1 open: the text \<^verbatim>\<open>Hello\<close> between spaces is stored trimmed
  under the name Anonymous, and blank text stores nothing.
\<close>

theorem handleAddComment_appends_witness:
  "(\<exists>s'. handleAddComment ''3/1/2025, 9:00:00 AM'' (commenting_state '' Hello  '') = Inr s'
       \<and> comments_of (comments s') ''scorecard_1'' 1
           = [\<lparr>c_text = ''Hello'', c_timestamp = ''3/1/2025, 9:00:00 AM'', c_username = ''Anonymous''\<rparr>])
   \<and> comments (state_after (handleAddComment ''3/1/2025, 9:00:00 AM'' (commenting_state ''  ''))
                  (commenting_state ''  '')) = []"
proof -
  have h1: "trim (commentInput (commenting_state '' Hello  '')) \<noteq> []
      \<and> selectedCategory (commenting_state '' Hello  '') = Some ''scorecard_1''
      \<and> startsWith ''scorecard_1'' ''scorecard_''
      \<and> openCommentRowId (commenting_state '' Hello  '') = Some 1"
    by (simp add: commenting_state_def sample_state_def trim_Hello startsWith_def)
  have h2: "trim (commentInput (commenting_state ''  '')) = []
        \<or> (\<forall>c. selectedCategory (commenting_state ''  '') = Some c \<longrightarrow> \<not> startsWith c ''scorecard_'')"
    by (simp add: commenting_state_def trim_blank)
  have e: "comments_of (comments (commenting_state '' Hello  '')) ''scorecard_1'' 1 = []"
    "trim (commentInput (commenting_state '' Hello  '')) = ''Hello''"
    "current_username (commenting_state '' Hello  '') = ''Anonymous''"
    "comments (commenting_state ''  '') = []"
    by (simp_all add: commenting_state_def sample_state_def comments_of_def trim_Hello current_username_def)
  note t1 = handleAddComment_appends[of "commenting_state '' Hello  ''" "''scorecard_1''" 1
      "''3/1/2025, 9:00:00 AM''", THEN conjunct1, THEN mp, OF h1]
  have first: "\<exists>s'. handleAddComment ''3/1/2025, 9:00:00 AM'' (commenting_state '' Hello  '') = Inr s'
       \<and> comments_of (comments s') ''scorecard_1'' 1
           = [\<lparr>c_text = ''Hello'', c_timestamp = ''3/1/2025, 9:00:00 AM'', c_username = ''Anonymous''\<rparr>]"
  proof -
    from t1 obtain s' where "handleAddComment ''3/1/2025, 9:00:00 AM'' (commenting_state '' Hello  '') = Inr s'"
      "comments_of (comments s') ''scorecard_1'' 1
               = comments_of (comments (commenting_state '' Hello  '')) ''scorecard_1'' 1
                   @ [\<lparr>c_text = trim (commentInput (commenting_state '' Hello  '')),
                       c_timestamp = ''3/1/2025, 9:00:00 AM'',
                       c_username = current_username (commenting_state '' Hello  '')\<rparr>]"
      by (elim exE conjE) (rule that; assumption)
    then show ?thesis unfolding e by (intro exI conjI) simp_all
  qed
  note t2 = handleAddComment_appends[of "commenting_state ''  ''" _ _ "''3/1/2025, 9:00:00 AM''",
      THEN conjunct2, THEN mp, OF h2]
  from first t2 show ?thesis unfolding e by (intro conjI)
qed

section \<open>Adding a column\<close>

lemma insert_index_props:
  "insert_index cols \<le> length cols
   \<and> (\<forall>c\<in>set (take (insert_index cols) cols). col_key c \<noteq> ''retail_price'')
   \<and> (insert_index cols < length cols \<longrightarrow> col_key (cols ! insert_index cols) = ''retail_price'')"
proof -
  let ?P = "\<lambda>col. col_key col \<noteq> ''retail_price''"
  have "take (insert_index cols) cols = takeWhile ?P cols"
    unfolding insert_index_def by (rule takeWhile_eq_take[symmetric])
  then have "\<forall>c\<in>set (take (insert_index cols) cols). ?P c"
    by (auto dest: set_takeWhileD)
  moreover have "insert_index cols < length cols \<longrightarrow> \<not> ?P (cols ! insert_index cols)"
    unfolding insert_index_def using nth_length_takeWhile by blast
  moreover have "insert_index cols \<le> length cols"
    by (simp add: insert_index_def length_takeWhile_le)
  ultimately show ?thesis by simp
qed

lemma handleAddColumnConfirm_success:
  assumes cur: "getCurrentData s = Some (cols, rs)" and n: "trim (newColName s) \<noteq> []"
    and fresh: "normalize (newColName s) \<notin> col_key ` set cols"
  shows "\<exists>s' newCol. handleAddColumnConfirm s = Inr s' \<and> colError s' = []
       \<and> getCurrentData s' = Some (map blank_comments (take (insert_index cols) cols @ [newCol] @ drop (insert_index cols) cols),
                                   map (AList.update (normalize (newColName s)) (Prim (Str []))) rs)
       \<and> col_key newCol = normalize (newColName s)"
proof -
  let ?k = "normalize (newColName s)"
  let ?new = "\<lparr>col_key = ?k, col_name = newColName s,
                               editable = Some (userRole s = ''ADMIN''), sortable = Some True,
                               isDefault = None, renderEditCell = None, renderCell = None,
                               renderHeaderCell = None\<rparr>"
  let ?cols' = "map blank_comments (take (insert_index cols) cols @ [?new] @ drop (insert_index cols) cols)"
  let ?rs' = "map (AList.update ?k (Prim (Str []))) rs"
  let ?u = "\<lparr>u_name = None, u_columns = Some ?cols', u_rows = Some ?rs'\<rparr>"
  obtain s1 where s1: "updateCurrentData ?u s = Inr s1" "getCurrentData s1 = Some (merged ?u (cols, rs))"
    using updateCurrentData_current[OF cur, of ?u] by blast
  have idem: "map blank_comments ?cols' = ?cols'"
    by simp
  have nodup: "\<not> list_ex (\<lambda>col. col_key col = ?k) cols"
    using fresh by (force simp: list_ex_iff)
  have "handleAddColumnConfirm s = Inr (s1\<lparr>showAddColModal := False, newColName := [], colError := []\<rparr>)"
    using cur n nodup s1(1) by (simp add: handleAddColumnConfirm_def Let_def)
  moreover have "getCurrentData (s1\<lparr>showAddColModal := False, newColName := [], colError := []\<rparr>) = Some (?cols', ?rs')"
    using s1(2) by (simp add: merged_def)
  ultimately show ?thesis
    by (intro exI[of _ "s1\<lparr>showAddColModal := False, newColName := [], colError := []\<rparr>"] exI[of _ ?new]) simp
qed

text \<open>
  Claim C7, as amended. With a scorecard selected, confirming the dialog sets an error
  message and leaves columns and rows as they were exactly when the trimmed name is empty
  or the generated key is the key of an existing column. Otherwise the error is cleared,
  the new column stands immediately before the first column keyed \<^verbatim>\<open>retail_price\<close>
  (at the end when there is none) and every row maps the new key to the empty string, its
  other fields as before. With no scorecard selected and a name that is not blank,
  nothing changes and no error is set.
\<close>

theorem handleAddColumnConfirm_cases:
  "(getCurrentData s = Some (cols, rs)
      \<and> (trim (newColName s) = [] \<or> normalize (newColName s) \<in> col_key ` set cols)
     \<longrightarrow> (\<exists>s'. handleAddColumnConfirm s = Inr s' \<and> colError s' \<noteq> []
            \<and> getCurrentData s' = Some (cols, rs)))
   \<and> (getCurrentData s = Some (cols, rs) \<and> trim (newColName s) \<noteq> []
      \<and> normalize (newColName s) \<notin> col_key ` set cols
     \<longrightarrow> (\<exists>s' newCol rs'. handleAddColumnConfirm s = Inr s' \<and> colError s' = []
          \<and> getCurrentData s' =
              Some (map blank_comments
                      (take (insert_index cols) cols @ [newCol] @ drop (insert_index cols) cols), rs')
          \<and> col_key newCol = normalize (newColName s)
          \<and> insert_index cols \<le> length cols
          \<and> (\<forall>c\<in>set (take (insert_index cols) cols). col_key c \<noteq> ''retail_price'')
          \<and> (insert_index cols < length cols \<longrightarrow> col_key (cols ! insert_index cols) = ''retail_price'')
          \<and> length rs' = length rs
          \<and> (\<forall>j<length rs. map_of (rs' ! j) = (map_of (rs ! j))(normalize (newColName s) \<mapsto> Prim (Str [])))))
   \<and> (getCurrentData s = None \<and> trim (newColName s) \<noteq> [] \<longrightarrow> handleAddColumnConfirm s = Inr s)"
proof (intro conjI impI)
  assume a: "getCurrentData s = Some (cols, rs)
      \<and> (trim (newColName s) = [] \<or> normalize (newColName s) \<in> col_key ` set cols)"
  show "\<exists>s'. handleAddColumnConfirm s = Inr s' \<and> colError s' \<noteq> [] \<and> getCurrentData s' = Some (cols, rs)"
  proof (cases "trim (newColName s) = []")
    case True
    then show ?thesis using a by (simp add: handleAddColumnConfirm_def)
  next
    case False
    with a have "list_ex (\<lambda>col. col_key col = normalize (newColName s)) cols"
      by (auto simp: list_ex_iff)
    with False a show ?thesis by (simp add: handleAddColumnConfirm_def Let_def)
  qed
next
  assume a: "getCurrentData s = Some (cols, rs) \<and> trim (newColName s) \<noteq> []
      \<and> normalize (newColName s) \<notin> col_key ` set cols"
  let ?k = "normalize (newColName s)"
  obtain s' newCol where r: "handleAddColumnConfirm s = Inr s'" "colError s' = []"
    "getCurrentData s' = Some (map blank_comments (take (insert_index cols) cols @ [newCol] @ drop (insert_index cols) cols),
                                   map (AList.update ?k (Prim (Str []))) rs)"
    "col_key newCol = ?k"
    using handleAddColumnConfirm_success a by blast
  have rows: "length (map (AList.update ?k (Prim (Str []))) rs) = length rs
     \<and> (\<forall>j<length rs. map_of (map (AList.update ?k (Prim (Str []))) rs ! j) = (map_of (rs ! j))(?k \<mapsto> Prim (Str [])))"
    by (simp add: update_conv')
  show "\<exists>s' newCol rs'. handleAddColumnConfirm s = Inr s' \<and> colError s' = []
          \<and> getCurrentData s' =
              Some (map blank_comments
                      (take (insert_index cols) cols @ [newCol] @ drop (insert_index cols) cols), rs')
          \<and> col_key newCol = normalize (newColName s)
          \<and> insert_index cols \<le> length cols
          \<and> (\<forall>c\<in>set (take (insert_index cols) cols). col_key c \<noteq> ''retail_price'')
          \<and> (insert_index cols < length cols \<longrightarrow> col_key (cols ! insert_index cols) = ''retail_price'')
          \<and> length rs' = length rs
          \<and> (\<forall>j<length rs. map_of (rs' ! j) = (map_of (rs ! j))(normalize (newColName s) \<mapsto> Prim (Str [])))"
    using r rows insert_index_props[of cols] by blast
next
  assume "getCurrentData s = None \<and> trim (newColName s) \<noteq> []"
  then show "handleAddColumnConfirm s = Inr s"
    by (simp add: handleAddColumnConfirm_def Let_def)
qed

lemma normalize_Unit_Price: "normalize ''Unit Price'' = ''unit_price''"
  by code_simp

lemma normalize_Name: "normalize ''Name'' = ''name''"
  by code_simp

lemma trim_Unit_Price: "trim ''Unit Price'' \<noteq> []"
  by code_simp

lemma trim_Name: "trim ''Name'' \<noteq> []"
  by code_simp

lemma trim_Region: "trim ''Region'' \<noteq> []"
  by code_simp

lemma getCurrentData_adding_state: "getCurrentData (adding_state n) = Some (sample_columns, sample_rows)"
  by (simp add: adding_state_def getCurrentData_def sample_state_def startsWith_def)

text \<open>
  The theorem on a grid with columns \<^verbatim>\<open>name\<close> and \<^verbatim>\<open>retail_price\<close>: the name
  \<^verbatim>\<open>Unit Price\<close> gives a column between the two, the name \<^verbatim>\<open>Name\<close> gives an
  error, and with nothing selected the name \<^verbatim>\<open>Region\<close> changes nothing.
\<close>

theorem handleAddColumnConfirm_cases_witness:
  "getCurrentData (adding_state ''Unit Price'') = Some (sample_columns, sample_rows)
   \<and> (\<exists>s' cols' rs'. handleAddColumnConfirm (adding_state ''Unit Price'') = Inr s' \<and> colError s' = []
         \<and> getCurrentData s' = Some (cols', rs')
         \<and> map col_key cols' = [''name'', ''unit_price'', ''retail_price''])
   \<and> (\<exists>s'. handleAddColumnConfirm (adding_state ''Name'') = Inr s' \<and> colError s' \<noteq> []
         \<and> getCurrentData s' = Some (sample_columns, sample_rows))
   \<and> getCurrentData (initial_state\<lparr>newColName := ''Region''\<rparr>) = None
   \<and> handleAddColumnConfirm (initial_state\<lparr>newColName := ''Region''\<rparr>)
       = Inr (initial_state\<lparr>newColName := ''Region''\<rparr>)"
proof -
  have n1: "newColName (adding_state ''Unit Price'') = ''Unit Price''"
    and n2: "newColName (adding_state ''Name'') = ''Name''"
    and n3: "newColName (initial_state\<lparr>newColName := ''Region''\<rparr>) = ''Region''"
    by (simp_all add: adding_state_def)
  have keys: "col_key ` set sample_columns = {''name'', ''retail_price''}"
    by (auto simp: sample_columns_def plain_column_def)
  have h1: "getCurrentData (adding_state ''Unit Price'') = Some (sample_columns, sample_rows)
      \<and> trim (newColName (adding_state ''Unit Price'')) \<noteq> []
      \<and> normalize (newColName (adding_state ''Unit Price'')) \<notin> col_key ` set sample_columns"
    unfolding n1 keys normalize_Unit_Price using trim_Unit_Price getCurrentData_adding_state by simp
  have h2: "getCurrentData (adding_state ''Name'') = Some (sample_columns, sample_rows)
      \<and> (trim (newColName (adding_state ''Name'')) = []
          \<or> normalize (newColName (adding_state ''Name'')) \<in> col_key ` set sample_columns)"
    unfolding n2 keys normalize_Name using getCurrentData_adding_state by simp
  have none: "getCurrentData (initial_state\<lparr>newColName := ''Region''\<rparr>) = None"
    by (simp add: getCurrentData_def initial_state_def)
  have h3: "getCurrentData (initial_state\<lparr>newColName := ''Region''\<rparr>) = None
      \<and> trim (newColName (initial_state\<lparr>newColName := ''Region''\<rparr>)) \<noteq> []"
    unfolding n3 using none trim_Region by simp
  have i: "insert_index sample_columns = 1"
    by (simp add: insert_index_def sample_columns_def plain_column_def)
  note t1 = handleAddColumnConfirm_cases[of "adding_state ''Unit Price''" sample_columns sample_rows,
      THEN conjunct2, THEN conjunct1, THEN mp, OF h1]
  have first: "\<exists>s' cols' rs'. handleAddColumnConfirm (adding_state ''Unit Price'') = Inr s' \<and> colError s' = []
         \<and> getCurrentData s' = Some (cols', rs')
         \<and> map col_key cols' = [''name'', ''unit_price'', ''retail_price'']"
  proof -
    from t1 obtain s' newCol rs' where b: "handleAddColumnConfirm (adding_state ''Unit Price'') = Inr s'"
      "colError s' = []"
      "getCurrentData s' = Some (map blank_comments
                      (take (insert_index sample_columns) sample_columns @ [newCol]
                        @ drop (insert_index sample_columns) sample_columns), rs')"
      "col_key newCol = normalize (newColName (adding_state ''Unit Price''))"
      by (elim exE conjE) (rule that; assumption)
    have "map col_key (map blank_comments
                      (take (insert_index sample_columns) sample_columns @ [newCol]
                        @ drop (insert_index sample_columns) sample_columns))
        = [''name'', ''unit_price'', ''retail_price'']"
      unfolding i using b(4) unfolding n1 normalize_Unit_Price
      by (simp add: sample_columns_def plain_column_def)
    with b show ?thesis by (intro exI conjI)
  qed
  note second = handleAddColumnConfirm_cases[of "adding_state ''Name''" sample_columns sample_rows,
      THEN conjunct1, THEN mp, OF h2]
  note third = handleAddColumnConfirm_cases[of "initial_state\<lparr>newColName := ''Region''\<rparr>",
      THEN conjunct2, THEN conjunct2, THEN mp, OF h3]
  from getCurrentData_adding_state first second none third show ?thesis by (intro conjI)
qed

text \<open>
  Claim C7 as stated fails in the state after mounting, where nothing is selected: the
  name \<^verbatim>\<open>Region\<close> is not blank and clashes with no column, yet no error is set and
  no column is inserted.
\<close>

theorem handleAddColumnConfirm_counterexample:
  "handleAddColumnConfirm (initial_state\<lparr>newColName := ''Region''\<rparr>)
     = Inr (initial_state\<lparr>newColName := ''Region''\<rparr>)
   \<and> colError (initial_state\<lparr>newColName := ''Region''\<rparr>) = []
   \<and> trim ''Region'' = ''Region''
   \<and> current_columns (initial_state\<lparr>newColName := ''Region''\<rparr>) = []"
proof -
  have t: "trim ''Region'' = ''Region''" by code_simp
  have g: "getCurrentData (initial_state\<lparr>newColName := ''Region''\<rparr>) = None"
    by (simp add: getCurrentData_def initial_state_def)
  have "handleAddColumnConfirm (initial_state\<lparr>newColName := ''Region''\<rparr>)
     = Inr (initial_state\<lparr>newColName := ''Region''\<rparr>)"
    using t g by (simp add: handleAddColumnConfirm_def Let_def)
  then show ?thesis using t g by (simp add: current_columns_def initial_state_def)
qed

section \<open>Adding a row\<close>

lemma handleAddRow_result:
  assumes "getCurrentData s = Some (cols, rs)"
  shows "\<exists>s'. handleAddRow s = Inr s' \<and> getCurrentData s' = Some (cols, rs @ [new_row cols rs])"
proof -
  let ?u = "\<lparr>u_name = None, u_columns = None, u_rows = Some (rs @ [new_row cols rs])\<rparr>"
  obtain s' where s': "updateCurrentData ?u s = Inr s'" "getCurrentData s' = Some (merged ?u (cols, rs))"
    using updateCurrentData_current[OF assms, of ?u] by blast
  from assms obtain c where "selectedCategory s = Some c" "startsWith c ''scorecard_''"
    by (rule getCurrentData_SomeD)
  then have "selectedCategory s \<noteq> Some ''Retailers''"
    using startsWith_not_Retailers by auto
  then show ?thesis using s' assms
    by (simp add: handleAddRow_def Let_def new_row_def merged_def)
qed

lemma set_numeric_ids:
  "set (numeric_ids rs) = {n. \<exists>r\<in>set rs. obj_get r ''id'' = Prim (Num n)}"
  by (auto simp: numeric_ids_def split: jsval.splits prim.splits)

lemma numeric_id_or_0_cases:
  "(\<exists>n. obj_get r ''id'' = Prim (Num n) \<and> numeric_id_or_0 r = n)
     \<or> ((\<forall>n. obj_get r ''id'' \<noteq> Prim (Num n)) \<and> numeric_id_or_0 r = 0)"
  by (auto simp: numeric_id_or_0_def split: jsval.splits prim.splits)

lemma next_id_agrees:
  assumes safe: "\<forall>r\<in>set rs. \<bar>numeric_id_or_0 r\<bar> < 2 ^ 53"
    and "(\<forall>r\<in>set rs. \<exists>n. obj_get r ''id'' = Prim (Num n))
           \<or> (\<exists>r\<in>set rs. \<exists>n\<ge>0. obj_get r ''id'' = Prim (Num n))
           \<or> numeric_ids rs = []"
  shows "next_id rs = id_above_numeric_ids rs"
proof (cases "rs = []")
  case True
  then show ?thesis by (simp add: next_id_def id_above_numeric_ids_def numeric_ids_def)
next
  case False
  note next_id_Max = next_id_safe[OF safe]
  let ?A = "set (map numeric_id_or_0 rs)" and ?B = "set (numeric_ids rs)"
  have sub1: "?B \<subseteq> ?A"
    by (force simp: set_numeric_ids numeric_id_or_0_def)
  have sub2: "?A \<subseteq> insert 0 ?B"
    using numeric_id_or_0_cases by (fastforce simp: set_numeric_ids)
  have A: "finite ?A" "?A \<noteq> {}" using False by auto
  show ?thesis
  proof (cases "numeric_ids rs = []")
    case True
    then have "?B = {}" by simp
    with sub2 have "?A \<subseteq> {0}" by simp
    with A(2) have "?A = {0}" by (metis subset_singletonD)
    then show ?thesis using True False by (simp add: next_id_Max id_above_numeric_ids_def)
  next
    case nonempty: False
    then have B: "finite ?B" "?B \<noteq> {}" by auto
    have "Max ?A = Max ?B"
    proof (rule antisym)
      show "Max ?B \<le> Max ?A" by (rule Max_mono[OF sub1 B(2) A(1)])
      have "Max ?A \<in> insert 0 ?B" using Max_in[OF A] sub2 by blast
      moreover have "0 \<in> ?A \<Longrightarrow> \<exists>b\<in>?B. 0 \<le> b"
      proof -
        assume "0 \<in> ?A"
        from assms nonempty consider "\<forall>r\<in>set rs. \<exists>n. obj_get r ''id'' = Prim (Num n)"
          | "\<exists>r\<in>set rs. \<exists>n\<ge>0. obj_get r ''id'' = Prim (Num n)" by blast
        then show ?thesis
        proof cases
          case 1
          then have "?A \<subseteq> ?B" by (force simp: set_numeric_ids numeric_id_or_0_def)
          with \<open>0 \<in> ?A\<close> show ?thesis by blast
        next
          case 2
          then show ?thesis by (auto simp: set_numeric_ids)
        qed
      qed
      ultimately show "Max ?A \<le> Max ?B"
        using B Max_ge[OF B(1)] Max_in[OF A] by (metis insertE order_trans)
    qed
    then show ?thesis using False nonempty by (simp add: next_id_Max id_above_numeric_ids_def)
  qed
qed

text \<open>
  Claim C8, as amended. With a current grid, adding a row appends exactly one row and
  changes no existing row. The id of the new row is 1 for an empty list and otherwise the
  double nearest to one more than the greatest of the rows' ids, a row without a numeric
  id counting as 0. When every numeric id is a safe integer (of a magnitude below the 53rd
  power of two), the new id is exactly one more than that greatest id and differs from
  every numeric id present, and it is one more than the greatest numeric id whenever
  every row has a numeric id, or some numeric id is not negative, or none is numeric. The
  new row maps \<^verbatim>\<open>name\<close> and every column key to the empty string, apart from
  \<^verbatim>\<open>id\<close>, \<^verbatim>\<open>delete\<close> and the names every object inherits.
\<close>

theorem handleAddRow_appends_row:
  assumes "getCurrentData s = Some (cols, rs)"
  shows "\<exists>s' newRow. handleAddRow s = Inr s' \<and> getCurrentData s' = Some (cols, rs @ [newRow])
     \<and> obj_get newRow ''id'' = Prim (Num (next_id rs))
     \<and> next_id rs = (if rs = [] then 1 else to_double (Max (set (map numeric_id_or_0 rs)) + 1))
     \<and> ((\<forall>r\<in>set rs. \<bar>numeric_id_or_0 r\<bar> < 2 ^ 53) \<longrightarrow>
            next_id rs = (if rs = [] then 1 else Max (set (map numeric_id_or_0 rs)) + 1)
          \<and> (\<forall>r\<in>set rs. obj_get r ''id'' \<noteq> Prim (Num (next_id rs)))
          \<and> ((\<forall>r\<in>set rs. \<exists>n. obj_get r ''id'' = Prim (Num n))
               \<or> (\<exists>r\<in>set rs. \<exists>n\<ge>0. obj_get r ''id'' = Prim (Num n))
               \<or> numeric_ids rs = [] \<longrightarrow> next_id rs = id_above_numeric_ids rs))
     \<and> map_of newRow ''name'' = Some (Prim (Str []))
     \<and> (\<forall>col\<in>set cols. col_key col \<notin> {''id'', ''delete''} \<union> set object_prototype_keys
           \<longrightarrow> map_of newRow (col_key col) = Some (Prim (Str [])))"
proof -
  obtain s' where s': "handleAddRow s = Inr s'"
    "getCurrentData s' = Some (cols, rs @ [new_row cols rs])"
    using handleAddRow_result[OF assms] by blast
  have id: "obj_get (new_row cols rs) ''id'' = Prim (Num (next_id rs))"
    by (simp add: obj_get_def new_row_def map_of_fill_new_row)
  have safe: "(\<forall>r\<in>set rs. \<bar>numeric_id_or_0 r\<bar> < 2 ^ 53) \<longrightarrow>
            next_id rs = (if rs = [] then 1 else Max (set (map numeric_id_or_0 rs)) + 1)
          \<and> (\<forall>r\<in>set rs. obj_get r ''id'' \<noteq> Prim (Num (next_id rs)))
          \<and> ((\<forall>r\<in>set rs. \<exists>n. obj_get r ''id'' = Prim (Num n))
               \<or> (\<exists>r\<in>set rs. \<exists>n\<ge>0. obj_get r ''id'' = Prim (Num n))
               \<or> numeric_ids rs = [] \<longrightarrow> next_id rs = id_above_numeric_ids rs)"
  proof (intro impI conjI)
    assume h: "\<forall>r\<in>set rs. \<bar>numeric_id_or_0 r\<bar> < 2 ^ 53"
    show "next_id rs = (if rs = [] then 1 else Max (set (map numeric_id_or_0 rs)) + 1)"
      by (rule next_id_safe[OF h])
    show "\<forall>r\<in>set rs. obj_get r ''id'' \<noteq> Prim (Num (next_id rs))"
      using numeric_id_less_next_id[OF h] by blast
    assume "(\<forall>r\<in>set rs. \<exists>n. obj_get r ''id'' = Prim (Num n))
               \<or> (\<exists>r\<in>set rs. \<exists>n\<ge>0. obj_get r ''id'' = Prim (Num n))
               \<or> numeric_ids rs = []"
    then show "next_id rs = id_above_numeric_ids rs"
      by (rule next_id_agrees[OF h])
  qed
  have nm: "map_of (new_row cols rs) ''name'' = Some (Prim (Str []))"
    by (simp add: new_row_def map_of_fill_new_row)
  have fill: "\<forall>col\<in>set cols. col_key col \<notin> {''id'', ''delete''} \<union> set object_prototype_keys
           \<longrightarrow> map_of (new_row cols rs) (col_key col) = Some (Prim (Str []))"
    by (auto simp: new_row_def map_of_fill_new_row)
  from s' id next_id_Max[of rs] safe nm fill show ?thesis
    by (intro exI conjI)
qed

text \<open>
  The theorem at a grid of two rows with ids 1 and 2, both safe integers: the new row gets
  id 3, which no row has.
\<close>

theorem handleAddRow_appends_row_witness:
  "getCurrentData (sample_state sample_columns sample_rows) = Some (sample_columns, sample_rows)
   \<and> map numeric_id_or_0 sample_rows = [1, 2]
   \<and> (\<exists>s' newRow. handleAddRow (sample_state sample_columns sample_rows) = Inr s'
        \<and> getCurrentData s' = Some (sample_columns, sample_rows @ [newRow])
        \<and> obj_get newRow ''id'' = Prim (Num 3)
        \<and> (\<forall>r\<in>set sample_rows. obj_get r ''id'' \<noteq> Prim (Num 3))
        \<and> map_of newRow ''retail_price'' = Some (Prim (Str [])))"
proof -
  have h: "getCurrentData (sample_state sample_columns sample_rows) = Some (sample_columns, sample_rows)"
    by (simp add: getCurrentData_def sample_state_def startsWith_def)
  have ids: "map numeric_id_or_0 sample_rows = [1, 2]"
    by (simp add: sample_rows_def numeric_id_or_0_def obj_get_def)
  have safe: "\<forall>r\<in>set sample_rows. \<bar>numeric_id_or_0 r\<bar> < 2 ^ 53"
    by (simp add: sample_rows_def numeric_id_or_0_def obj_get_def)
  have k: "plain_column ''retail_price'' ''Retail Price'' \<in> set sample_columns"
    "col_key (plain_column ''retail_price'' ''Retail Price'') \<notin> {''id'', ''delete''} \<union> set object_prototype_keys"
    by (simp_all add: sample_columns_def plain_column_def object_prototype_keys_def)
  from handleAddRow_appends_row[OF h] obtain s' newRow where
    r: "handleAddRow (sample_state sample_columns sample_rows) = Inr s'"
     "getCurrentData s' = Some (sample_columns, sample_rows @ [newRow])"
     "obj_get newRow ''id'' = Prim (Num (next_id sample_rows))"
     "(\<forall>r\<in>set sample_rows. \<bar>numeric_id_or_0 r\<bar> < 2 ^ 53) \<longrightarrow>
            next_id sample_rows = (if sample_rows = [] then 1 else Max (set (map numeric_id_or_0 sample_rows)) + 1)
          \<and> (\<forall>r\<in>set sample_rows. obj_get r ''id'' \<noteq> Prim (Num (next_id sample_rows)))
          \<and> ((\<forall>r\<in>set sample_rows. \<exists>n. obj_get r ''id'' = Prim (Num n))
               \<or> (\<exists>r\<in>set sample_rows. \<exists>n\<ge>0. obj_get r ''id'' = Prim (Num n))
               \<or> numeric_ids sample_rows = [] \<longrightarrow> next_id sample_rows = id_above_numeric_ids sample_rows)"
     "\<forall>col\<in>set sample_columns. col_key col \<notin> {''id'', ''delete''} \<union> set object_prototype_keys
           \<longrightarrow> map_of newRow (col_key col) = Some (Prim (Str []))"
    by (elim exE conjE) (rule that; assumption)
  note g = r(4)[THEN mp, OF safe]
  have "next_id sample_rows = (if sample_rows = [] then 1 else Max (set (map numeric_id_or_0 sample_rows)) + 1)"
    by (rule g[THEN conjunct1])
  then have n: "next_id sample_rows = 3"
    by (simp add: sample_rows_def numeric_id_or_0_def obj_get_def)
  have fresh: "\<forall>r\<in>set sample_rows. obj_get r ''id'' \<noteq> Prim (Num 3)"
    using g[THEN conjunct2, THEN conjunct1] unfolding n .
  from r(5) k have p: "map_of newRow ''retail_price'' = Some (Prim (Str []))"
    by (metis column.select_convs(1) plain_column_def)
  have "\<exists>s' newRow. handleAddRow (sample_state sample_columns sample_rows) = Inr s'
        \<and> getCurrentData s' = Some (sample_columns, sample_rows @ [newRow])
        \<and> obj_get newRow ''id'' = Prim (Num 3)
        \<and> (\<forall>r\<in>set sample_rows. obj_get r ''id'' \<noteq> Prim (Num 3))
        \<and> map_of newRow ''retail_price'' = Some (Prim (Str []))"
    using r(1,2) r(3)[unfolded n] fresh p by (intro exI conjI)
  with h ids show ?thesis by (intro conjI)
qed

lemma to_double_above_safe: "to_double (9007199254740992 + 1) = 9007199254740992"
proof -
  have "spacing 9007199254740993 = 2 * spacing 4503599627370496"
    by (subst spacing.simps) simp
  also have "spacing 4503599627370496 = 1" by (rule spacing_small) simp
  finally have "spacing (nat \<bar>9007199254740993\<bar>) = 2" by simp
  then show ?thesis unfolding to_double_def by simp
qed

lemma short_sheet_not_vertical: "length rows2D \<le> 3 \<Longrightarrow> \<not> isVertical rows2D"
proof -
  assume l: "length rows2D \<le> 3"
  let ?xs = "filter non_empty (map (\<lambda>r. cell_at r 0) rows2D)"
  have "length (unique ?xs) = card (set ?xs)" by (rule length_unique)
  also have "\<dots> \<le> length ?xs" by (rule card_length)
  also have "\<dots> \<le> length rows2D" using length_filter_le[of non_empty "map (\<lambda>r. cell_at r 0) rows2D"] by simp
  finally show ?thesis using l by (simp add: isVertical_def Let_def)
qed

lemma big_id_sheet_facts:
  "\<not> isVertical big_id_sheet" "headerRowIndex big_id_sheet = 0"
  "dataRows_of big_id_sheet = [[Num 9007199254740992]]"
proof -
  have t: "non_empty (Str ''id'')" by code_simp
  have n: "non_empty (Num 9007199254740992)" by (rule non_empty_Num) simp
  show "\<not> isVertical big_id_sheet"
    by (rule short_sheet_not_vertical) (simp add: big_id_sheet_def)
  have "[0..<min 10 (length big_id_sheet)] = [0, 1]"
    by (simp add: big_id_sheet_def upt_rec)
  then show h: "headerRowIndex big_id_sheet = 0"
    by (simp add: headerRowIndex_def header_step_def score_def big_id_sheet_def t n unique_def)
  show "dataRows_of big_id_sheet = [[Num 9007199254740992]]"
    unfolding dataRows_of_def h by (simp add: big_id_sheet_def n)
qed

lemma imported_state_current:
  "getCurrentData imported_state =
     Some ([imported_column ''id'' ''Id''],
           [[(''id'', Prim (Num 9007199254740992)), (''_rowIndex'', Prim (Num 0))]])"
proof -
  let ?s = "sample_state sample_columns sample_rows"
  let ?cols = "[imported_column ''id'' ''Id'']"
  let ?rs = "[[(''id'', Prim (Num 9007199254740992)), (''_rowIndex'', Prim (Num 0))]]"
  let ?u = "\<lparr>u_name = None, u_columns = Some ?cols, u_rows = Some ?rs\<rparr>"
  have k: "header_key (Str ''id'') = ''id''" "capitalize ''id'' = ''Id''" by code_simp+
  have n: "non_empty (Num 9007199254740992)" by (rule non_empty_Num) simp
  have "\<forall>c\<in>set (big_id_sheet ! headerRowIndex big_id_sheet). text_or_empty c"
    unfolding big_id_sheet_facts by (simp add: big_id_sheet_def text_or_empty_def)
  from import_horizontal_result[OF this]
  have "import_horizontal big_id_sheet = Inr (?cols, ?rs)"
    unfolding big_id_sheet_facts
    by (simp add: big_id_sheet_def k horizontal_row_def cell_assign_def cell_at_def has_value_def n
        to_row_def)
  then have "parse_sheet big_id_sheet = Inr (Some (?cols, ?rs))"
    using big_id_sheet_facts(1) by (simp add: parse_sheet_def big_id_sheet_def)
  then have i: "handleImportExcel big_id_sheet ?s = updateCurrentData ?u ?s"
    by (simp add: handleImportExcel_def)
  have cur: "getCurrentData ?s = Some (sample_columns, sample_rows)"
    by (simp add: getCurrentData_def sample_state_def startsWith_def)
  obtain s' where s': "updateCurrentData ?u ?s = Inr s'"
    "getCurrentData s' = Some (merged ?u (sample_columns, sample_rows))"
    using updateCurrentData_current[OF cur, of ?u] by blast
  have "merged ?u (sample_columns, sample_rows) = (?cols, ?rs)"
    by (simp add: merged_def blank_comments_def imported_column_def)
  with s' i show ?thesis by (simp add: imported_state_def state_after_def)
qed

text \<open>
  Claim C8 as stated fails on the rows with ids -5 and \<^verbatim>\<open>'a'\<close> under a column keyed
  \<^verbatim>\<open>constructor\<close>: the new id is 1 where the greatest numeric id plus one is -4, and
  the new row has no entry for the column. It fails also after the import of a sheet
  whose \<^verbatim>\<open>id\<close> column holds the 53rd power of two: the sum rounds back to that
  number, so the new row gets the id that is already there.
\<close>

theorem handleAddRow_counterexample:
  "map_sum id current_rows (handleAddRow (sample_state [plain_column ''constructor'' ''Constructor''] odd_rows))
     = Inr (odd_rows @ [[(''id'', Prim (Num 1)), (''name'', Prim (Str []))]])
   \<and> id_above_numeric_ids odd_rows = - 4
   \<and> current_rows imported_state
     = [[(''id'', Prim (Num 9007199254740992)), (''_rowIndex'', Prim (Num 0))]]
   \<and> map_sum id current_rows (handleAddRow imported_state)
     = Inr [[(''id'', Prim (Num 9007199254740992)), (''_rowIndex'', Prim (Num 0))],
            [(''id'', Prim (Num 9007199254740992)), (''name'', Prim (Str []))]]"
proof -
  have one: "to_double 1 = 1" by (rule to_double_safe) simp
  have a: "map_sum id current_rows (handleAddRow (sample_state [plain_column ''constructor'' ''Constructor''] odd_rows))
     = Inr (odd_rows @ [[(''id'', Prim (Num 1)), (''name'', Prim (Str []))]])"
    by (simp add: handleAddRow_def getCurrentData_def sample_state_def startsWith_def odd_rows_def
      plain_column_def next_id_def js_plus_def one numeric_id_or_0_def obj_get_def fill_new_row_def obj_in_def
      object_prototype_keys_def updateCurrentData_def updateScoreCard_def setScorecards_def
      saveScoreCardsToStorage_def apply_updates_def current_rows_def Let_def)
  have b: "id_above_numeric_ids odd_rows = - 4"
    by (simp add: odd_rows_def id_above_numeric_ids_def numeric_ids_def obj_get_def)
  let ?cols = "[imported_column ''id'' ''Id'']"
  let ?rs = "[[(''id'', Prim (Num 9007199254740992)), (''_rowIndex'', Prim (Num 0))]]"
  have c: "current_rows imported_state = ?rs"
    by (simp add: current_rows_def imported_state_current)
  have "new_row ?cols ?rs = [(''id'', Prim (Num 9007199254740992)), (''name'', Prim (Str []))]"
    using to_double_above_safe
    by (simp add: new_row_def next_id_def js_plus_def numeric_id_or_0_def obj_get_def
        fill_new_row_def imported_column_def)
  with handleAddRow_result[OF imported_state_current]
  have d: "map_sum id current_rows (handleAddRow imported_state)
     = Inr [[(''id'', Prim (Num 9007199254740992)), (''_rowIndex'', Prim (Num 0))],
            [(''id'', Prim (Num 9007199254740992)), (''name'', Prim (Str []))]]"
    by (auto simp: current_rows_def)
  from a b c d show ?thesis by (intro conjI)
qed

section \<open>Sorting keeps the rows and puts null values last\<close>

lemma compare_rows_null_first:
  "is_nullish (obj_get a (columnKey sc)) \<Longrightarrow> 0 < compare_rows strict_eq gt sc a b"
  by (simp add: compare_rows_def Let_def)

lemma compare_rows_null_second:
  "\<not> is_nullish (obj_get a (columnKey sc)) \<Longrightarrow> is_nullish (obj_get b (columnKey sc))
     \<Longrightarrow> compare_rows strict_eq gt sc a b < 0"
  by (simp add: compare_rows_def Let_def)

lemma in_order_null:
  assumes "in_order (compare_rows strict_eq gt sc) a b" "is_nullish (obj_get a (columnKey sc))"
  shows "is_nullish (obj_get b (columnKey sc))"
proof (rule ccontr)
  assume n: "\<not> is_nullish (obj_get b (columnKey sc))"
  have "0 < compare_rows strict_eq gt sc a b"
    using assms(2) by (rule compare_rows_null_first)
  moreover have "compare_rows strict_eq gt sc b a < 0"
    using n assms(2) by (rule compare_rows_null_second)
  ultimately show False using assms(1) by (simp add: in_order_def)
qed

lemma neighbours_null_last:
  assumes "successively (in_order (compare_rows strict_eq gt sc)) ys"
  shows "sorted_wrt (\<lambda>a b. is_nullish (obj_get a (columnKey sc)) \<longrightarrow> is_nullish (obj_get b (columnKey sc))) ys"
proof -
  let ?Q = "\<lambda>a b. is_nullish (obj_get a (columnKey sc)) \<longrightarrow> is_nullish (obj_get b (columnKey sc))"
  have "successively ?Q ys"
    using assms by (rule successively_mono) (use in_order_null in blast)
  moreover have "transp ?Q" by (auto simp: transp_def)
  ultimately show ?thesis by (simp add: successively_conv_sorted_wrt)
qed

text \<open>
  Claim C9. Whatever the sort state and the comparison of non-null values, and for every
  sort of the engine that keeps the elements and makes no two elements neighbours against
  both answers of the comparator: the sorted rows are a permutation of the current rows,
  each row as it was; with no sort column they are the current rows in their stored
  order; and when sorting by a column, ascending or descending, no row whose value in
  that column is null or undefined stands before a row with another value.
\<close>

theorem getSortedRows_permutation:
  assumes "engine_sort sorter"
  shows "mset (getSortedRows sorter strict_eq gt s) = mset (current_rows s)
   \<and> (sortColumns s = [] \<longrightarrow> getSortedRows sorter strict_eq gt s = current_rows s)
   \<and> (\<forall>sc rest i j. sortColumns s = sc # rest \<and> i < j \<and> j < length (getSortedRows sorter strict_eq gt s)
         \<and> is_nullish (obj_get (getSortedRows sorter strict_eq gt s ! i) (columnKey sc))
        \<longrightarrow> is_nullish (obj_get (getSortedRows sorter strict_eq gt s ! j) (columnKey sc)))"
proof (intro conjI allI impI)
  have m: "\<And>cmp xs. mset (sorter cmp xs) = mset xs"
    using assms by (simp add: engine_sort_def)
  show "mset (getSortedRows sorter strict_eq gt s) = mset (current_rows s)"
    by (simp add: getSortedRows_def m split: list.splits)
  show "getSortedRows sorter strict_eq gt s = current_rows s" if "sortColumns s = []"
    using that by (simp add: getSortedRows_def)
next
  fix sc rest i j
  assume a: "sortColumns s = sc # rest \<and> i < j \<and> j < length (getSortedRows sorter strict_eq gt s)
         \<and> is_nullish (obj_get (getSortedRows sorter strict_eq gt s ! i) (columnKey sc))"
  let ?P = "\<lambda>r. is_nullish (obj_get r (columnKey sc))"
  have eq: "getSortedRows sorter strict_eq gt s = sorter (compare_rows strict_eq gt sc) (current_rows s)"
    using a by (simp add: getSortedRows_def)
  have "successively (in_order (compare_rows strict_eq gt sc)) (getSortedRows sorter strict_eq gt s)"
    unfolding eq using assms by (simp add: engine_sort_def)
  then have "sorted_wrt (\<lambda>a b. ?P a \<longrightarrow> ?P b) (getSortedRows sorter strict_eq gt s)"
    by (rule neighbours_null_last)
  then show "is_nullish (obj_get (getSortedRows sorter strict_eq gt s ! j) (columnKey sc))"
    using a by (auto simp: sorted_wrt_iff_nth_less)
qed

subsection \<open>A sort that meets the requirement\<close>

lemma bsearch_bracket:
  assumes "left \<le> right" "right \<le> length xs"
    "left = 0 \<or> 0 \<le> cmp pivot (xs ! (left - 1))"
    "right = length xs \<or> cmp pivot (xs ! right) < 0"
  shows "left \<le> bsearch cmp pivot xs left right \<and> bsearch cmp pivot xs left right \<le> right
     \<and> (bsearch cmp pivot xs left right = 0
          \<or> 0 \<le> cmp pivot (xs ! (bsearch cmp pivot xs left right - 1)))
     \<and> (bsearch cmp pivot xs left right = length xs
          \<or> cmp pivot (xs ! bsearch cmp pivot xs left right) < 0)"
  using assms
proof (induction cmp pivot xs left right rule: bsearch.induct)
  case (1 cmp pivot xs left right)
  show ?case
  proof (cases "left < right")
    case False
    with "1.prems" have "left = right" by simp
    with False "1.prems" show ?thesis by (subst (1 2 3 4 5 6) bsearch.simps) auto
  next
    case True
    define mid where "mid = left + (right - left) div 2"
    have mid: "left \<le> mid" "mid < right" using True by (auto simp: mid_def)
    show ?thesis
    proof (cases "cmp pivot (xs ! mid) < 0")
      case lt: True
      have e: "bsearch cmp pivot xs left right = bsearch cmp pivot xs left mid"
        using True lt by (subst bsearch.simps) (simp add: mid_def Let_def)
      have "left \<le> bsearch cmp pivot xs left mid \<and> bsearch cmp pivot xs left mid \<le> mid
         \<and> (bsearch cmp pivot xs left mid = 0 \<or> 0 \<le> cmp pivot (xs ! (bsearch cmp pivot xs left mid - 1)))
         \<and> (bsearch cmp pivot xs left mid = length xs \<or> cmp pivot (xs ! bsearch cmp pivot xs left mid) < 0)"
        using "1.IH"(1)[OF True mid_def lt] mid "1.prems" lt by auto
      then show ?thesis unfolding e using mid by auto
    next
      case ge: False
      have e: "bsearch cmp pivot xs left right = bsearch cmp pivot xs (mid + 1) right"
        using True ge by (subst bsearch.simps) (simp add: mid_def Let_def)
      have "mid + 1 \<le> bsearch cmp pivot xs (mid + 1) right \<and> bsearch cmp pivot xs (mid + 1) right \<le> right
         \<and> (bsearch cmp pivot xs (mid + 1) right = 0
              \<or> 0 \<le> cmp pivot (xs ! (bsearch cmp pivot xs (mid + 1) right - 1)))
         \<and> (bsearch cmp pivot xs (mid + 1) right = length xs
              \<or> cmp pivot (xs ! bsearch cmp pivot xs (mid + 1) right) < 0)"
        using "1.IH"(2)[OF True mid_def ge] mid "1.prems" ge by auto
      then show ?thesis unfolding e using mid by auto
    qed
  qed
qed

lemma mset_binary_insert: "mset (binary_insert cmp xs x) = add_mset x (mset xs)"
proof -
  have "mset (take p xs @ x # drop p xs) = add_mset x (mset (take p xs @ drop p xs))" for p
    by (simp del: append_take_drop_id)
  then show ?thesis by (simp add: binary_insert_def Let_def)
qed

lemma successively_binary_insert:
  assumes "successively (in_order cmp) xs"
  shows "successively (in_order cmp) (binary_insert cmp xs x)"
proof -
  define p where "p = bsearch cmp x xs 0 (length xs)"
  have b: "p \<le> length xs" "p = 0 \<or> 0 \<le> cmp x (xs ! (p - 1))" "p = length xs \<or> cmp x (xs ! p) < 0"
    using bsearch_bracket[of 0 "length xs" xs cmp x] by (auto simp: p_def)
  have "successively (in_order cmp) (take p xs @ drop p xs)" using assms by simp
  then have s: "successively (in_order cmp) (take p xs)" "successively (in_order cmp) (drop p xs)"
    unfolding successively_append_iff by auto
  have before: "take p xs = [] \<or> in_order cmp (last (take p xs)) x"
  proof (cases "p = 0")
    case False
    then have "take p xs \<noteq> []" "length (take p xs) = p" using b(1) by auto
    then have "last (take p xs) = take p xs ! (p - 1)" by (simp add: last_conv_nth)
    also have "\<dots> = xs ! (p - 1)" using False by simp
    finally have "last (take p xs) = xs ! (p - 1)" .
    with False b(2) show ?thesis by (simp add: in_order_def)
  qed simp
  have after: "drop p xs = [] \<or> in_order cmp x (hd (drop p xs))"
  proof (cases "p = length xs")
    case False
    then have "hd (drop p xs) = xs ! p"
      using b(1) by (simp add: hd_drop_conv_nth)
    with False b(3) show ?thesis by (simp add: in_order_def)
  qed simp
  have "successively (in_order cmp) (take p xs @ x # drop p xs)"
    unfolding successively_append_iff successively_Cons using s before after by auto
  then show ?thesis by (simp add: binary_insert_def p_def Let_def)
qed

lemma foldl_binary_insert:
  "mset (foldl (binary_insert cmp) run ys) = mset run + mset ys
   \<and> (successively (in_order cmp) run \<longrightarrow> successively (in_order cmp) (foldl (binary_insert cmp) run ys))"
proof (induction ys arbitrary: run)
  case (Cons y ys)
  show ?case
    using Cons[of "binary_insert cmp run y"] successively_binary_insert[of cmp run y]
    by (simp add: mset_binary_insert)
qed simp

lemma run_more_le: "run_more cmp d previous xs \<le> length xs"
  by (induction xs arbitrary: previous) auto

lemma successively_run:
  "successively (\<lambda>a b. (cmp b a < 0) = d) (take (Suc (run_more cmp d previous xs)) (previous # xs))"
proof (induction xs arbitrary: previous)
  case (Cons x xs)
  show ?case using Cons[of x] by (auto simp: successively_Cons)
qed simp

lemma short_sort_meets: "engine_sort short_sort"
  unfolding engine_sort_def
proof (intro allI)
  fix cmp :: "'a \<Rightarrow> 'a \<Rightarrow> int" and xs :: "'a list"
  show "mset (short_sort cmp xs) = mset xs \<and> successively (in_order cmp) (short_sort cmp xs)"
  proof (cases "\<exists>x0 x1 rest. xs = x0 # x1 # rest")
    case False
    then have "xs = [] \<or> (\<exists>x. xs = [x])"
      by (cases xs; cases "tl xs") auto
    then show ?thesis by (auto simp: short_sort_def)
  next
    case True
    then obtain x0 x1 rest where many: "xs = x0 # x1 # rest" by blast
    define d where "d = (cmp x1 x0 < 0)"
    define n where "n = 2 + run_more cmp d x1 rest"
    define run where "run = (if d then rev (take n xs) else take n xs)"
    have e: "short_sort cmp xs = foldl (binary_insert cmp) run (drop n xs)"
      using many by (simp add: short_sort_def Let_def d_def n_def run_def)
    have t: "take n xs = x0 # take (Suc (run_more cmp d x1 rest)) (x1 # rest)"
      using many by (simp add: n_def)
    have "successively (\<lambda>a b. (cmp b a < 0) = d) (take n xs)"
      unfolding t using successively_run[of cmp d x1 rest] by (simp add: successively_Cons d_def)
    then have "successively (in_order cmp) run"
      unfolding run_def
      by (cases d) (auto simp: in_order_def elim!: successively_mono)
    moreover have "mset run + mset (drop n xs) = mset xs"
    proof -
      have "mset (take n xs) + mset (drop n xs) = mset (take n xs @ drop n xs)"
        by (simp del: append_take_drop_id)
      then have "mset (take n xs) + mset (drop n xs) = mset xs" by simp
      then show ?thesis by (simp add: run_def)
    qed
    ultimately show ?thesis
      unfolding e using foldl_binary_insert[of cmp run "drop n xs"] by simp
  qed
qed

text \<open>
  The theorem with that sort on four rows sorted by \<^verbatim>\<open>score\<close> descending: the rows
  with scores 7 and 5 come first, the row with a null score and the row without a score
  come last.
\<close>

theorem getSortedRows_permutation_witness:
  "engine_sort (short_sort :: (row \<Rightarrow> row \<Rightarrow> int) \<Rightarrow> row list \<Rightarrow> row list)
   \<and> getSortedRows short_sort (=) number_gt
      ((sample_state sample_columns scored_rows)\<lparr>sortColumns := [\<lparr>columnKey = ''score'', ascending = False\<rparr>]\<rparr>)
     = [[(''id'', Prim (Num 4)), (''score'', Prim (Num 7))],
        [(''id'', Prim (Num 2)), (''score'', Prim (Num 5))],
        [(''id'', Prim (Num 1)), (''score'', Prim Null)],
        [(''id'', Prim (Num 3))]]
   \<and> mset (getSortedRows short_sort (=) number_gt
      ((sample_state sample_columns scored_rows)\<lparr>sortColumns := [\<lparr>columnKey = ''score'', ascending = False\<rparr>]\<rparr>))
     = mset scored_rows
   \<and> is_nullish (obj_get (getSortedRows short_sort (=) number_gt
      ((sample_state sample_columns scored_rows)\<lparr>sortColumns := [\<lparr>columnKey = ''score'', ascending = False\<rparr>]\<rparr>) ! 2)
        ''score'')
   \<and> is_nullish (obj_get (getSortedRows short_sort (=) number_gt
      ((sample_state sample_columns scored_rows)\<lparr>sortColumns := [\<lparr>columnKey = ''score'', ascending = False\<rparr>]\<rparr>) ! 3)
        ''score'')"
proof -
  let ?s = "(sample_state sample_columns scored_rows)\<lparr>sortColumns := [\<lparr>columnKey = ''score'', ascending = False\<rparr>]\<rparr>"
  have m: "engine_sort (short_sort :: (row \<Rightarrow> row \<Rightarrow> int) \<Rightarrow> row list \<Rightarrow> row list)"
    by (rule short_sort_meets)
  have cur: "current_rows ?s = scored_rows"
    by (simp add: current_rows_def getCurrentData_def sample_state_def startsWith_def)
  have "short_sort (compare_rows (=) number_gt \<lparr>columnKey = ''score'', ascending = False\<rparr>) scored_rows
     = [[(''id'', Prim (Num 4)), (''score'', Prim (Num 7))],
        [(''id'', Prim (Num 2)), (''score'', Prim (Num 5))],
        [(''id'', Prim (Num 1)), (''score'', Prim Null)],
        [(''id'', Prim (Num 3))]]"
    by (simp add: short_sort_def scored_rows_def compare_rows_def obj_get_def number_gt_def
          object_prototype_keys_def binary_insert_def bsearch.simps Let_def)
  then have r: "getSortedRows short_sort (=) number_gt ?s
     = [[(''id'', Prim (Num 4)), (''score'', Prim (Num 7))],
        [(''id'', Prim (Num 2)), (''score'', Prim (Num 5))],
        [(''id'', Prim (Num 1)), (''score'', Prim Null)],
        [(''id'', Prim (Num 3))]]"
    by (simp add: getSortedRows_def cur)
  note t = getSortedRows_permutation[OF m, of "(=)" number_gt ?s]
  have p: "mset (getSortedRows short_sort (=) number_gt ?s) = mset scored_rows"
    using t[THEN conjunct1] cur by simp
  have n2: "is_nullish (obj_get (getSortedRows short_sort (=) number_gt ?s ! 2) ''score'')"
    unfolding r by (simp add: obj_get_def)
  have h: "sortColumns ?s = \<lparr>columnKey = ''score'', ascending = False\<rparr> # [] \<and> (2::nat) < 3
      \<and> 3 < length (getSortedRows short_sort (=) number_gt ?s)
      \<and> is_nullish (obj_get (getSortedRows short_sort (=) number_gt ?s ! 2)
            (columnKey \<lparr>columnKey = ''score'', ascending = False\<rparr>))"
    using n2 by (simp add: r)
  have n3: "is_nullish (obj_get (getSortedRows short_sort (=) number_gt ?s ! 3) ''score'')"
    using t[THEN conjunct2, THEN conjunct2, THEN spec, THEN spec, THEN spec, THEN spec, THEN mp, OF h]
    by simp
  from m r p n2 n3 show ?thesis by (intro conjI)
qed

section \<open>Deleting a column\<close>




lemma comments_blank_map: "comments_blank (map blank_comments cols)"
  by (auto simp: comments_blank_def blank_comments_def)



text \<open>
  The columns of the current grid have their \<^verbatim>\<open>comments\<close> columns blank after the
  effect that follows a selection, and they stay so under every write through
  \<^verbatim>\<open>updateCurrentData\<close>, which is the only way a handler changes them.
\<close>

lemma editable_effect_blank:
  assumes "getCurrentData s = Some (cols, rs)"
  shows "\<exists>s' cols'. editable_effect s = Inr s' \<and> getCurrentData s' = Some (cols', rs)
           \<and> comments_blank cols' \<and> map col_key cols' = map col_key cols"
proof -
  let ?f = "\<lambda>col. let is_editable = (userRole s = ''ADMIN'' \<and> col_key col \<noteq> ''id''
                                   \<and> col_key col \<noteq> ''delete'')
                in col\<lparr>editable := Some is_editable,
                       renderEditCell := (case renderEditCell col of
                                            Some f \<Rightarrow> Some f
                                          | None \<Rightarrow> if is_editable then Some ''input'' else None)\<rparr>"
  let ?u = "\<lparr>u_name = None, u_columns = Some (map ?f cols), u_rows = None\<rparr>"
  obtain s' where s': "updateCurrentData ?u s = Inr s'" "getCurrentData s' = Some (merged ?u (cols, rs))"
    using updateCurrentData_current[OF assms, of ?u] by blast
  have e: "editable_effect s = Inr s'"
    using assms s'(1) by (simp add: editable_effect_def)
  have m: "merged ?u (cols, rs) = (map blank_comments (map ?f cols), rs)"
    by (simp add: merged_def)
  have k: "map col_key (map blank_comments (map ?f cols)) = map col_key cols"
    by (simp add: Let_def comp_def)
  from e s'(2) m k comments_blank_map[of "map ?f cols"] show ?thesis by auto
qed

lemma updateCurrentData_blank:
  assumes "getCurrentData s = Some (cols, rs)" "comments_blank cols"
  shows "\<exists>s' cols' rs'. updateCurrentData u s = Inr s' \<and> getCurrentData s' = Some (cols', rs')
           \<and> comments_blank cols'"
proof -
  obtain s' where s': "updateCurrentData u s = Inr s'" "getCurrentData s' = Some (merged u (cols, rs))"
    using updateCurrentData_current[OF assms(1), of u] by blast
  have "comments_blank (fst (merged u (cols, rs)))"
    using assms(2) by (auto simp: merged_def comments_blank_map split: option.splits)
  with s' show ?thesis by (cases "merged u (cols, rs)") auto
qed




section \<open>What reaches local storage\<close>

lemma scorecards_stored_setScorecards: "scorecards_stored (setScorecards f s)"
  by (simp add: scorecards_stored_def setScorecards_def saveScoreCardsToStorage_def)

lemma scorecards_stored_cong:
  "scorecards s' = scorecards s \<Longrightarrow> localStorage s' ''scorecards'' = localStorage s ''scorecards''
     \<Longrightarrow> scorecards_stored s' = scorecards_stored s"
  by (simp add: scorecards_stored_def)

lemma updateCurrentData_stored:
  assumes "updateCurrentData u s = Inr s'" "scorecards_stored s"
  shows "scorecards_stored s'"
proof (cases "selectedCategory s")
  case None
  with assms show ?thesis by (simp add: updateCurrentData_def Let_def)
next
  case (Some c)
  show ?thesis
  proof (cases "startsWith c ''scorecard_''")
    case True
    with Some assms(1) have "s' = updateScoreCard c (u\<lparr>u_columns := map_option (map blank_comments) (u_columns u)\<rparr>) s"
      by (simp add: updateCurrentData_def Let_def)
    then show ?thesis by (simp add: updateScoreCard_def scorecards_stored_setScorecards)
  next
    case False
    with Some assms(1) obtain cd where "s' = s\<lparr>categoryData := cd\<rparr>"
      by (auto simp: updateCurrentData_def Let_def)
    with assms(2) show ?thesis by (simp add: scorecards_stored_def)
  qed
qed

lemma handleAddRow_stored:
  assumes "scorecards_stored s" shows "scorecards_stored (state_after (handleAddRow s) s)"
proof (cases "handleAddRow s")
  case (Inl e)
  with assms show ?thesis by (simp add: state_after_def)
next
  case (Inr s')
  show ?thesis
  proof (cases "getCurrentData s")
    case None
    with Inr assms show ?thesis by (simp add: handleAddRow_def state_after_def)
  next
    case (Some d)
    obtain cols rs where d: "d = (cols, rs)" by (cases d)
    let ?rows = "rs @ [fill_new_row cols [(''id'', Prim (Num (next_id rs))), (''name'', Prim (Str []))]]"
    from Inr Some d obtain s1 where
      u: "updateCurrentData \<lparr>u_name = None, u_columns = None, u_rows = Some ?rows\<rparr> s = Inr s1"
      and s': "s' = (if selectedCategory s = Some ''Retailers'' then saveRetailersToStorage ?rows s1 else s1)"
      by (auto simp: handleAddRow_def Let_def split: sum.splits)
    have "scorecards_stored s1" using updateCurrentData_stored[OF u assms] .
    then have "scorecards_stored s'"
      unfolding s' by (simp add: scorecards_stored_def saveRetailersToStorage_def)
    with Inr show ?thesis by (simp add: state_after_def)
  qed
qed

lemma handleAddColumnConfirm_stored:
  assumes "scorecards_stored s" shows "scorecards_stored (state_after (handleAddColumnConfirm s) s)"
proof (cases "handleAddColumnConfirm s")
  case (Inl e)
  with assms show ?thesis by (simp add: state_after_def)
next
  case (Inr s')
  from Inr consider "s' = s" | e where "s' = s\<lparr>colError := e\<rparr>"
    | u s1 where "updateCurrentData u s = Inr s1"
        "s' = s1\<lparr>showAddColModal := False, newColName := [], colError := []\<rparr>"
    by (auto simp: handleAddColumnConfirm_def Let_def split: if_splits option.splits sum.splits)
  then have "scorecards_stored s'"
  proof cases
    case 1 with assms show ?thesis by simp
  next
    case 2 with assms show ?thesis by (simp add: scorecards_stored_def)
  next
    case 3
    from updateCurrentData_stored[OF 3(1) assms] 3(2) show ?thesis
      by (simp add: scorecards_stored_def)
  qed
  with Inr show ?thesis by (simp add: state_after_def)
qed

lemma handleDeleteColumn_stored:
  assumes "scorecards_stored s" shows "scorecards_stored (state_after (handleDeleteColumn k s) s)"
proof (cases "getCurrentData s")
  case None
  with assms show ?thesis by (simp add: handleDeleteColumn_def state_after_def)
next
  case (Some d)
  obtain cols rs where d: "d = (cols, rs)" by (cases d)
  let ?u = "\<lparr>u_name = None, u_columns = Some (filter (\<lambda>col. col_key col \<noteq> k) cols),
             u_rows = Some (map (AList.delete k) rs)\<rparr>"
  have eq: "handleDeleteColumn k s = updateCurrentData ?u s"
    using Some d by (simp add: handleDeleteColumn_def)
  show ?thesis
  proof (cases "updateCurrentData ?u s")
    case (Inl e)
    with eq assms show ?thesis by (simp add: state_after_def)
  next
    case (Inr s')
    from updateCurrentData_stored[OF Inr assms] eq Inr show ?thesis by (simp add: state_after_def)
  qed
qed

lemma deleteScoreCard_stored: "scorecards_stored (deleteScoreCard i s)"
  using scorecards_stored_setScorecards[of "filter (\<lambda>sc. sc_id sc \<noteq> i)" s]
  by (simp add: deleteScoreCard_def Let_def scorecards_stored_def)

lemma handleAddComment_stored:
  assumes "handleAddComment now s = Inr s'" "comments s' \<noteq> comments s"
  shows "comments_stored s'"
  using assms
  by (auto simp: handleAddComment_def Let_def comments_stored_def saveScorecardComments_def
      split: if_splits option.splits)

lemma subgrid_handlers_leave_storage:
  "localStorage (handleAddSubGrid p s) = localStorage s"
  "localStorage (state_after (handleSubGridAddColumn p t s) s) = localStorage s"
  "localStorage (state_after (handleSubGridAddRow p s) s) = localStorage s"
  "localStorage (handleSubGridRowsChange p rs s) = localStorage s"
  "localStorage (state_after (handleSubGridDeleteRow p r s) s) = localStorage s"
  "localStorage (state_after (handleSubGridDeleteColumn p k s) s) = localStorage s"
  by (auto simp: handleAddSubGrid_def handleSubGridAddColumn_def handleSubGridAddRow_def
      handleSubGridRowsChange_def handleSubGridDeleteRow_def handleSubGridDeleteColumn_def
      state_after_def Let_def split: looked.splits option.splits)


text \<open>
  Claim C1, as amended. Every change of the scorecards is followed by a write of the new
  list to local storage, so deleting a scorecard, adding a row, adding a column and
  deleting a column leave storage holding the current scorecards; a comment that is added
  is written with the comments. The sub-grid handlers (add sub-grid, add column, add row,
  rows change, delete row, delete column) never write to local storage: sub-grid state is
  held in memory only.
\<close>

theorem storage_persistence:
  "scorecards_stored (setScorecards f s)
   \<and> scorecards_stored (deleteScoreCard i s)
   \<and> (scorecards_stored s \<longrightarrow>
        scorecards_stored (state_after (handleAddRow s) s)
        \<and> scorecards_stored (state_after (handleAddColumnConfirm s) s)
        \<and> scorecards_stored (state_after (handleDeleteColumn k s) s))
   \<and> (handleAddComment now s = Inr s' \<and> comments s' \<noteq> comments s \<longrightarrow> comments_stored s')
   \<and> localStorage (handleAddSubGrid p s) = localStorage s
   \<and> localStorage (state_after (handleSubGridAddColumn p t s) s) = localStorage s
   \<and> localStorage (state_after (handleSubGridAddRow p s) s) = localStorage s
   \<and> localStorage (handleSubGridRowsChange p rs s) = localStorage s
   \<and> localStorage (state_after (handleSubGridDeleteRow p r s) s) = localStorage s
   \<and> localStorage (state_after (handleSubGridDeleteColumn p k s) s) = localStorage s"
  using scorecards_stored_setScorecards deleteScoreCard_stored handleAddRow_stored
    handleAddColumnConfirm_stored handleDeleteColumn_stored handleAddComment_stored
    subgrid_handlers_leave_storage
  by (intro conjI impI) (simp_all only:, blast)

text \<open>
  The theorem on the sample state: after adding a row storage holds the three rows, and
  after adding a comment it holds the comment.
\<close>

theorem storage_persistence_witness:
  "scorecards_stored saved_state
   \<and> scorecards_stored (state_after (handleAddRow saved_state) saved_state)
   \<and> length (current_rows (state_after (handleAddRow saved_state) saved_state)) = 3
   \<and> comments_stored (state_after (handleAddComment ''3/1/2025, 9:00:00 AM'' (commenting_state '' Hello  ''))
        (commenting_state '' Hello  ''))"
proof -
  let ?c = "commenting_state '' Hello  ''" and ?t = "''3/1/2025, 9:00:00 AM''"
  have st: "scorecards_stored saved_state"
    unfolding saved_state_def
    using storage_persistence[of id "sample_state sample_columns sample_rows", THEN conjunct1] .
  note t = storage_persistence[of id saved_state _ _ ?t "state_after (handleAddComment ?t ?c) ?c",
      THEN conjunct2, THEN conjunct2, THEN conjunct1, THEN mp, OF st, THEN conjunct1]
  have cur: "getCurrentData saved_state = Some (sample_columns, sample_rows)"
    by (simp add: saved_state_def getCurrentData_def sample_state_def startsWith_def
        setScorecards_def saveScoreCardsToStorage_def)
  from handleAddRow_result[OF cur] have len: "length (current_rows (state_after (handleAddRow saved_state) saved_state)) = 3"
    by (auto simp: state_after_def current_rows_def sample_rows_def)
  have sel: "trim (commentInput ?c) \<noteq> []" "selectedCategory ?c = Some ''scorecard_1''"
    "startsWith ''scorecard_1'' ''scorecard_''" "openCommentRowId ?c = Some 1" "comments ?c = []"
    by (simp_all add: commenting_state_def sample_state_def trim_Hello startsWith_def)
  from handleAddComment_adds[OF sel(1-4), of ?t] obtain s1 where s1: "handleAddComment ?t ?c = Inr s1"
    "comments s1 \<noteq> []"
    by (auto simp: sel(5))
  have h: "handleAddComment ?t ?c = Inr (state_after (handleAddComment ?t ?c) ?c)
      \<and> comments (state_after (handleAddComment ?t ?c) ?c) \<noteq> comments ?c"
    using s1 by (simp add: state_after_def sel(5))
  note c = storage_persistence[of id ?c _ _ ?t "state_after (handleAddComment ?t ?c) ?c",
      THEN conjunct2, THEN conjunct2, THEN conjunct2, THEN conjunct1, THEN mp, OF h]
  from st t len c show ?thesis by (intro conjI)
qed

text \<open>
  Claim C1 as stated fails on the first sub-grid operation: adding a sub-grid under row 1
  in the state after mounting changes the sub-grids and leaves local storage as it was.
\<close>

theorem subgrid_not_persisted_counterexample:
  "localStorage (handleAddSubGrid (Num 1) initial_state) = localStorage initial_state
   \<and> subGrids (handleAddSubGrid (Num 1) initial_state) \<noteq> subGrids initial_state"
  by (simp add: handleAddSubGrid_def initial_state_def)

end
